theory Spec2Isabelle
  imports Complex_Main "HOL-Library.AList" "HOL-Library.Log_Nat"
begin

section \<open>Data model\<close>

text \<open>
  The program is one script, \<^verbatim>\<open>app.py\<close>, whose whole state is two entries of
  \<^verbatim>\<open>st.session_state\<close> and one file, \<^verbatim>\<open>habit_data.json\<close>:
  \<^item> \<^verbatim>\<open>habits\<close>, a list of habit names in display order;
  \<^item> \<^verbatim>\<open>habit_data\<close>, a dict from habit name to a dict with the keys
    \<^verbatim>\<open>category\<close>, \<^verbatim>\<open>goal\<close>, \<^verbatim>\<open>streak\<close> and \<^verbatim>\<open>history\<close>.

  A Python dict keeps its keys in insertion order, so a dict is an association list:
  \<open>d[k] = v\<close> is \<open>AList.update k v\<close> (overwrite in place, or append), \<open>del d[k]\<close> is
  \<open>AList.delete k\<close>, \<open>d[k]\<close> and \<open>d.get(k, _)\<close> are \<open>map_of d k\<close>, \<open>k in d\<close> is
  \<open>k \<in> fst ` set d\<close> and \<open>len(d)\<close> is \<open>length d\<close>.

  The script reads \<^verbatim>\<open>category\<close>, \<^verbatim>\<open>goal\<close> and \<^verbatim>\<open>streak\<close> unguarded and guards every
  read of \<^verbatim>\<open>history\<close> (\<^verbatim>\<open>.get("history", {})\<close>, \<^verbatim>\<open>"history" in ...\<close>), so the
  history of a habit is optional and the other three fields are not.
\<close>

record habit =
  category :: string
  goal :: string
  streak :: int
  history :: "(string \<times> bool) list option"

text \<open>
  What \<^verbatim>\<open>json.load\<close> returns and \<^verbatim>\<open>json.dump\<close> accepts: \<^verbatim>\<open>None\<close>, booleans, integers,
  strings, lists and dicts with string keys.
\<close>

datatype json =
  JNull
| JBool bool
| JInt int
| JStr string
| JArr "json list"
| JObj "(string \<times> json) list"

text \<open>
  The file \<^verbatim>\<open>habit_data.json\<close>, when it exists, holds either text on which
  \<^verbatim>\<open>json.load\<close> raises, or text that \<^verbatim>\<open>json.load\<close> parses to a value.
\<close>

datatype file_content = Malformed | Parsed json

record world =
  habits :: "string list"
  habit_data :: "(string \<times> habit) list"
  json_file :: "file_content option"

datatype exn = JSONDecodeError | KeyError | TypeError | ValueError

section \<open>Persistence: \<^verbatim>\<open>save_data\<close>\<close>

text \<open>
  The Python objects that \<^verbatim>\<open>json.dump\<close> is given, as JSON values. A habit created by
  the script has its keys in the order written here.
\<close>

definition history_json :: "(string \<times> bool) list \<Rightarrow> json" where
  "history_json h = JObj (map (\<lambda>(d, b). (d, JBool b)) h)"

definition habit_json :: "habit \<Rightarrow> json" where
  "habit_json h =
     JObj ([(''category'', JStr (category h)),
            (''goal'', JStr (goal h)),
            (''streak'', JInt (streak h))] @
           (case history h of
              None \<Rightarrow> []
            | Some hs \<Rightarrow> [(''history'', history_json hs)]))"

definition habits_json :: "string list \<Rightarrow> json" where
  "habits_json hs = JArr (map JStr hs)"

definition habit_data_json :: "(string \<times> habit) list \<Rightarrow> json" where
  "habit_data_json d = JObj (map (\<lambda>(n, h). (n, habit_json h)) d)"

text \<open>
  \<^verbatim>\<open>
  def save_data():
      data = {'habits': st.session_state.habits,
              'habit_data': st.session_state.habit_data}
      with open('habit_data.json', 'w') as f:
          json.dump(data, f)
  \<close>
  The file is replaced by text that parses back to \<^verbatim>\<open>data\<close>.
\<close>

definition save_data :: "world \<Rightarrow> world" where
  "save_data w =
     w\<lparr>json_file := Some (Parsed (JObj [(''habits'', habits_json (habits w)),
                                    (''habit_data'', habit_data_json (habit_data w))]))\<rparr>"

section \<open>Habit store: the handlers\<close>

text \<open>
  The ``Add Habit'' button (lines 52--66). \<^verbatim>\<open>if new_habit\<close> is true of every
  non-empty string.
  \<^verbatim>\<open>
  if new_habit and new_habit not in st.session_state.habits:
      st.session_state.habits.append(new_habit)
      st.session_state.habit_data[new_habit] = {
          "category": habit_category, "goal": habit_goal,
          "streak": 0, "history": {} }
      save_data()
      st.sidebar.success(...)
  elif new_habit in st.session_state.habits:
      st.sidebar.error("This habit already exists!")
  else:
      st.sidebar.error("Please enter a habit name.")
  \<close>
\<close>

datatype feedback =
  Added              \<comment> \<open>\<^verbatim>\<open>st.sidebar.success\<close>\<close>
| DuplicateHabit     \<comment> \<open>``This habit already exists!''\<close>
| InvalidName        \<comment> \<open>``Please enter a habit name.''\<close>

definition add_habit :: "string \<Rightarrow> string \<Rightarrow> string \<Rightarrow> world \<Rightarrow> feedback \<times> world" where
  "add_habit new_habit habit_category habit_goal w =
     (if new_habit \<noteq> [] \<and> new_habit \<notin> set (habits w) then
        (Added,
         save_data (w\<lparr>habits := habits w @ [new_habit],
                      habit_data :=
                        AList.update new_habit
                          \<lparr>category = habit_category, goal = habit_goal,
                           streak = 0, history = Some []\<rparr>
                          (habit_data w)\<rparr>))
      else if new_habit \<in> set (habits w) then (DuplicateHabit, w)
      else (InvalidName, w))"

text \<open>
  The ``Remove Habit'' button (lines 71--77). \<^verbatim>\<open>list.remove\<close> deletes the first
  occurrence and raises \<^verbatim>\<open>ValueError\<close> when there is none.
  \<^verbatim>\<open>
  st.session_state.habits.remove(habit_to_remove)
  if habit_to_remove in st.session_state.habit_data:
      del st.session_state.habit_data[habit_to_remove]
  save_data()
  \<close>
\<close>

definition remove_habit :: "string \<Rightarrow> world \<Rightarrow> exn option \<times> world" where
  "remove_habit habit_to_remove w =
     (if habit_to_remove \<notin> set (habits w) then (Some ValueError, w)
      else
        let w1 = w\<lparr>habits := remove1 habit_to_remove (habits w)\<rparr>;
            w2 = (if habit_to_remove \<in> fst ` set (habit_data w1)
                  then w1\<lparr>habit_data := AList.delete habit_to_remove (habit_data w1)\<rparr>
                  else w1)
        in (None, save_data w2))"

text \<open>
  The check-in of one habit (lines 102--127), the body of the loop over
  \<^verbatim>\<open>st.session_state.habits\<close>; \<open>completed\<close> is what the check box returns.
  \<^verbatim>\<open>
  habit_completed = False
  if date_str in st.session_state.habit_data[habit].get("history", {}):
      habit_completed = st.session_state.habit_data[habit]["history"][date_str]
  completed = st.checkbox(..., value=habit_completed, ...)
  if completed != habit_completed:
      if "history" not in st.session_state.habit_data[habit]:
          st.session_state.habit_data[habit]["history"] = {}
      st.session_state.habit_data[habit]["history"][date_str] = completed
      if completed:
          st.session_state.habit_data[habit]["streak"] += 1
      else:
          st.session_state.habit_data[habit]["streak"] = 0
      save_data()
  \<close>
  \<^verbatim>\<open>habit_data[habit]\<close> raises \<^verbatim>\<open>KeyError\<close> for a name that is not a key.
\<close>

definition history_or_empty :: "habit \<Rightarrow> (string \<times> bool) list" where
  \<comment> \<open>\<^verbatim>\<open>habit_data[habit].get("history", {})\<close>\<close>
  "history_or_empty h = (case history h of None \<Rightarrow> [] | Some hist \<Rightarrow> hist)"

definition history_get :: "habit \<Rightarrow> string \<Rightarrow> bool" where
  \<comment> \<open>\<open>habit_completed\<close> of lines 103--105; also \<^verbatim>\<open>history.get(date_str, False)\<close>\<close>
  "history_get h date_str =
     (case map_of (history_or_empty h) date_str of None \<Rightarrow> False | Some b \<Rightarrow> b)"

definition record_checkin :: "string \<Rightarrow> string \<Rightarrow> bool \<Rightarrow> world \<Rightarrow> exn option \<times> world" where
  "record_checkin habit date_str completed w =
     (case map_of (habit_data w) habit of
        None \<Rightarrow> (Some KeyError, w)
      | Some h \<Rightarrow>
          let habit_completed = history_get h date_str in
          if completed \<noteq> habit_completed then
            let h1 = h\<lparr>history := Some (AList.update date_str completed (history_or_empty h))\<rparr>;
                h2 = (if completed then h1\<lparr>streak := streak h1 + 1\<rparr>
                      else h1\<lparr>streak := 0\<rparr>)
            in (None, save_data (w\<lparr>habit_data := AList.update habit h2 (habit_data w)\<rparr>))
          else (None, w))"

text \<open>Reading a habit of the store: its streak (line 142) and an entry of its history.\<close>

definition streak_of :: "world \<Rightarrow> string \<Rightarrow> int option" where
  "streak_of w habit = map_option streak (map_of (habit_data w) habit)"

definition history_entry :: "world \<Rightarrow> string \<Rightarrow> string \<Rightarrow> bool option" where
  \<comment> \<open>what the history of the habit records for the date, if anything\<close>
  "history_entry w habit date_str =
     Option.bind (map_of (habit_data w) habit) (\<lambda>h. map_of (history_or_empty h) date_str)"

text \<open>
  Vocabulary for the statements below. \<open>after_checkin\<close> is the habit dict as lines
  115--125 leave it; \<open>checkin_seq\<close> runs check-ins of one habit in order and collects the
  streak read after each call; \<open>in_sync\<close> says that the name sequence and the keys of the
  mapping are the same names.
\<close>

definition after_checkin :: "string \<Rightarrow> bool \<Rightarrow> habit \<Rightarrow> habit" where
  "after_checkin date_str completed h =
     (if completed \<noteq> history_get h date_str then
        h\<lparr>history := Some (AList.update date_str completed (history_or_empty h)),
          streak := (if completed then streak h + 1 else 0)\<rparr>
      else h)"

fun checkin_seq :: "string \<Rightarrow> (string \<times> bool) list \<Rightarrow> world \<Rightarrow> int option list" where
  "checkin_seq habit [] w = []"
| "checkin_seq habit ((date_str, completed) # cs) w =
     (let w' = snd (record_checkin habit date_str completed w)
      in streak_of w' habit # checkin_seq habit cs w')"

definition in_sync :: "world \<Rightarrow> bool" where
  "in_sync w \<longleftrightarrow> set (habits w) = fst ` set (habit_data w)"

section \<open>Metrics\<close>

text \<open>
  Python's floats are IEEE 754 binary64 numbers, and both operations of line 162 round
  to the nearest one, ties to the one with an even significand: \<^verbatim>\<open>completed / total\<close>,
  the true division of two integers, gives the double nearest to the quotient, and
  \<^verbatim>\<open>* 100\<close> the double nearest to the product (100 is a double). A double is modelled
  by the rational number it stands for.

  \<open>ilog2 x\<close> is the integer \<open>k\<close> with \<open>2\<^sup>k \<le> x < 2\<^sup>k\<^sup>+\<^sup>1\<close>, for \<open>x > 0\<close>. The doubles
  around \<open>x\<close> are the multiples of \<open>2\<^sup>e\<close> with \<open>e = max (k - 52) (- 1074)\<close>: 53 bits of
  significand, and the fixed spacing \<open>2\<^sup>-\<^sup>1\<^sup>0\<^sup>7\<^sup>4\<close> of the subnormal numbers below
  \<open>2\<^sup>-\<^sup>1\<^sup>0\<^sup>2\<^sup>2\<close>. \<open>binary64 x\<close> is the double nearest to \<open>x\<close>, for \<open>x\<close> below the
  overflow threshold (the values of line 162 are at most 100).
\<close>

definition ilog2 :: "rat \<Rightarrow> int" where
  "ilog2 x =
     (case quotient_of x of
        (a, b) \<Rightarrow>
          let k = bitlen a - bitlen b
          in if power_int 2 k \<le> x then k else k - 1)"

definition round_half_even :: "rat \<Rightarrow> int" where
  "round_half_even y =
     (let f = \<lfloor>y\<rfloor>; r = y - of_int f
      in if r < 1 / 2 then f
         else if 1 / 2 < r then f + 1
         else if even f then f else f + 1)"

definition binary64 :: "rat \<Rightarrow> rat" where
  "binary64 x =
     (if x = 0 then 0
      else
        let e = max (ilog2 \<bar>x\<bar> - 52) (- 1074)
        in of_int (round_half_even (x / power_int 2 e)) * power_int 2 e)"

text \<open>
  The completion rate of one habit (lines 158--165), the body of the loop over the
  habits.
  \<^verbatim>\<open>
  if "history" in st.session_state.habit_data[habit]:
      history = st.session_state.habit_data[habit]["history"]
      total = len(history)
      completed = sum(1 for status in history.values() if status)
      rate = (completed / total) * 100 if total > 0 else 0
      completion_data[habit] = rate
  else:
      completion_data[habit] = 0
  \<close>
\<close>

definition completion_rate :: "habit \<Rightarrow> rat" where
  "completion_rate h =
     (case history h of
        Some hist \<Rightarrow>
          (let total = length hist;
               completed = length (filter (\<lambda>status. status) (map snd hist))
           in if total > 0 then binary64 (binary64 (of_nat completed / of_nat total) * 100)
              else 0)
      | None \<Rightarrow> 0)"

text \<open>
  The calendar (lines 196--235). A cell is \<^verbatim>\<open>None\<close> or a dict with the keys
  \<^verbatim>\<open>day\<close>, \<^verbatim>\<open>completed\<close> and \<^verbatim>\<open>date\<close>. The \<^verbatim>\<open>datetime\<close> library supplies
  \<open>first_weekday\<close> (\<^verbatim>\<open>first_day.weekday()\<close>, Monday = 0 to Sunday = 6), \<open>num_days\<close> (the
  day of the month's last day), the date object of each day and its \<^verbatim>\<open>strftime\<close>; a date
  is its year, month and day, and \<open>strftime\<close> is a parameter.
  \<^verbatim>\<open>
  date = datetime.date(current_year, current_month, day)
  date_str = date.strftime("%Y-%m-%d")
  if selected_habit in st.session_state.habit_data:
      completed = False
      if "history" in st.session_state.habit_data[selected_habit]:
          completed = st.session_state.habit_data[selected_habit]["history"].get(date_str, False)
      week.append({"day": day, "completed": completed, "date": date})
  else:
      week.append({"day": day, "completed": False, "date": date})
  \<close>
\<close>

type_synonym pydate = "nat \<times> nat \<times> nat"

record cell =
  day :: nat
  completed :: bool
  date :: pydate

type_synonym week = "cell option list"

definition day_cell ::
  "(pydate \<Rightarrow> string) \<Rightarrow> nat \<Rightarrow> nat \<Rightarrow> string \<Rightarrow> world \<Rightarrow> nat \<Rightarrow> cell" where
  "day_cell strftime current_year current_month selected_habit w d =
     (let dt = (current_year, current_month, d);
          date_str = strftime dt
      in case map_of (habit_data w) selected_habit of
           Some h \<Rightarrow> \<lparr>day = d, completed = history_get h date_str, date = dt\<rparr>
         | None \<Rightarrow> \<lparr>day = d, completed = False, date = dt\<rparr>)"

text \<open>
  \<^verbatim>\<open>
  for day in range(1, num_days + 1):
      ...  week.append(cell)
      if len(week) == 7:
          calendar_data.append(week)
          week = []
  \<close>
\<close>

definition append_day :: "cell \<Rightarrow> week list \<times> week \<Rightarrow> week list \<times> week" where
  "append_day c acc =
     (case acc of (calendar_data, week) \<Rightarrow>
        let week1 = week @ [Some c]
        in if length week1 = 7 then (calendar_data @ [week1], []) else (calendar_data, week1))"

fun fill_days :: "(nat \<Rightarrow> cell) \<Rightarrow> nat list \<Rightarrow> week list \<times> week \<Rightarrow> week list \<times> week" where
  "fill_days mk [] acc = acc"
| "fill_days mk (d # ds) acc = fill_days mk ds (append_day (mk d) acc)"

text \<open>
  \<^verbatim>\<open>
  while len(week) < 7:
      week.append(None)
  \<close>
\<close>

function pad_week :: "week \<Rightarrow> week" where
  "pad_week week = (if length week < 7 then pad_week (week @ [None]) else week)"
  by pat_completeness auto
termination
  by (relation "measure (\<lambda>week. 7 - length week)") auto

declare pad_week.simps [simp del]

text \<open>
  \<^verbatim>\<open>
  calendar_data = []
  week = []
  for _ in range(first_weekday):
      week.append(None)
  for day in range(1, num_days + 1): ...
  if week:
      while len(week) < 7: week.append(None)
      calendar_data.append(week)
  \<close>
\<close>

definition calendar_data :: "(nat \<Rightarrow> cell) \<Rightarrow> nat \<Rightarrow> nat \<Rightarrow> week list" where
  "calendar_data mk first_weekday num_days =
     (case fill_days mk [1..<num_days + 1] ([], replicate first_weekday None) of
        (cd, week) \<Rightarrow> if week \<noteq> [] then cd @ [pad_week week] else cd)"

definition calendar_grid ::
  "(pydate \<Rightarrow> string) \<Rightarrow> nat \<Rightarrow> nat \<Rightarrow> nat \<Rightarrow> nat \<Rightarrow> string \<Rightarrow> world \<Rightarrow> week list" where
  "calendar_grid strftime current_year current_month first_weekday num_days selected_habit w =
     calendar_data (day_cell strftime current_year current_month selected_habit w)
       first_weekday num_days"

text \<open>
  \<^verbatim>\<open>strftime("%Y-%m-%d")\<close> for a year of four digits, for the examples.
\<close>

definition digit :: "nat \<Rightarrow> char" where
  "digit n = ''0123456789'' ! (n mod 10)"

definition iso_strftime :: "pydate \<Rightarrow> string" where
  "iso_strftime dt =
     (case dt of (y, m, d) \<Rightarrow>
        [digit (y div 1000), digit (y div 100), digit (y div 10), digit y] @ ''-'' @
        [digit (m div 10), digit m] @ ''-'' @ [digit (d div 10), digit d])"

section \<open>Persistence: \<^verbatim>\<open>load_data\<close> and the start of the script\<close>

text \<open>
  \<^verbatim>\<open>load_data\<close> assigns what \<^verbatim>\<open>json.load\<close> returned to the session state without
  looking at it, so at this point the two entries of the session state are arbitrary
  JSON values.
\<close>

record session_state =
  ss_habits :: json
  ss_habit_data :: json

text \<open>
  \<^verbatim>\<open>data[key]\<close> for a string key: a dict without the key raises \<^verbatim>\<open>KeyError\<close>, and a
  list, a string, a number, a boolean or \<^verbatim>\<open>None\<close> raises \<^verbatim>\<open>TypeError\<close>.
\<close>

fun getitem :: "json \<Rightarrow> string \<Rightarrow> exn + json" where
  "getitem (JObj kvs) k = (case map_of kvs k of None \<Rightarrow> Inl KeyError | Some v \<Rightarrow> Inr v)"
| "getitem _ k = Inl TypeError"

text \<open>
  \<^verbatim>\<open>
  def load_data():
      if os.path.exists('habit_data.json'):
          with open('habit_data.json', 'r') as f:
              data = json.load(f)
              st.session_state.habits = data['habits']
              st.session_state.habit_data = data['habit_data']
  \<close>
  The result is the exception raised, if any, and the session state at that moment.
\<close>

definition load_data :: "file_content option \<Rightarrow> session_state \<Rightarrow> exn option \<times> session_state" where
  "load_data f st =
     (case f of
        None \<Rightarrow> (None, st)
      | Some Malformed \<Rightarrow> (Some JSONDecodeError, st)
      | Some (Parsed data) \<Rightarrow>
          (case getitem data ''habits'' of
             Inl e \<Rightarrow> (Some e, st)
           | Inr hs \<Rightarrow>
               let st1 = st\<lparr>ss_habits := hs\<rparr>
               in (case getitem data ''habit_data'' of
                     Inl e \<Rightarrow> (Some e, st1)
                   | Inr hdata \<Rightarrow> (None, st1\<lparr>ss_habit_data := hdata\<rparr>))))"

text \<open>
  The start of the script in a new session (lines 16--20 and 39--42): both entries are
  initialised, then \<^verbatim>\<open>load_data\<close> runs under \<^verbatim>\<open>try: ... except:\<close>, which shows a
  warning and goes on. The result is whether the warning was shown, and the session state.
  \<^verbatim>\<open>
  if 'habits' not in st.session_state:     st.session_state.habits = []
  if 'habit_data' not in st.session_state: st.session_state.habit_data = {}
  try:
      load_data()
  except:
      st.warning("No previous data found or error loading data. Starting fresh.")
  \<close>
\<close>

definition empty_session :: session_state where
  "empty_session = \<lparr>ss_habits = JArr [], ss_habit_data = JObj []\<rparr>"

definition startup :: "file_content option \<Rightarrow> bool \<times> session_state" where
  "startup f =
     (case load_data f empty_session of
        (None, st) \<Rightarrow> (False, st)
      | (Some e, st) \<Rightarrow> (True, st))"

text \<open>
  The session state of a world, and the way back: which JSON values are a list of names
  and a dict of habits, the shape that the handlers above work on and that
  \<^verbatim>\<open>save_data\<close> writes.
\<close>

definition session_of :: "world \<Rightarrow> session_state" where
  "session_of w =
     \<lparr>ss_habits = habits_json (habits w), ss_habit_data = habit_data_json (habit_data w)\<rparr>"

fun str_of_json :: "json \<Rightarrow> string option" where
  "str_of_json (JStr s) = Some s"
| "str_of_json _ = None"

fun bool_of_json :: "json \<Rightarrow> bool option" where
  "bool_of_json (JBool b) = Some b"
| "bool_of_json _ = None"

fun int_of_json :: "json \<Rightarrow> int option" where
  "int_of_json (JInt i) = Some i"
| "int_of_json _ = None"

fun entries_of_json :: "json \<Rightarrow> (string \<times> json) list option" where
  "entries_of_json (JObj kvs) = Some kvs"
| "entries_of_json _ = None"

definition entry_of :: "(json \<Rightarrow> 'a option) \<Rightarrow> string \<times> json \<Rightarrow> (string \<times> 'a) option" where
  "entry_of dec kv = map_option (Pair (fst kv)) (dec (snd kv))"

definition history_of_json :: "json \<Rightarrow> (string \<times> bool) list option" where
  "history_of_json j =
     Option.bind (entries_of_json j) (\<lambda>kvs. those (map (entry_of bool_of_json) kvs))"

definition habit_of_json :: "json \<Rightarrow> habit option" where
  "habit_of_json j =
     Option.bind (entries_of_json j) (\<lambda>kvs.
     Option.bind (Option.bind (map_of kvs ''category'') str_of_json) (\<lambda>c.
     Option.bind (Option.bind (map_of kvs ''goal'') str_of_json) (\<lambda>g.
     Option.bind (Option.bind (map_of kvs ''streak'') int_of_json) (\<lambda>s.
       case map_of kvs ''history'' of
         None \<Rightarrow> Some \<lparr>category = c, goal = g, streak = s, history = None\<rparr>
       | Some hj \<Rightarrow>
           map_option (\<lambda>hist. \<lparr>category = c, goal = g, streak = s, history = Some hist\<rparr>)
             (history_of_json hj)))))"

definition habits_of_json :: "json \<Rightarrow> string list option" where
  "habits_of_json j = (case j of JArr xs \<Rightarrow> those (map str_of_json xs) | _ \<Rightarrow> None)"

definition habit_data_of_json :: "json \<Rightarrow> (string \<times> habit) list option" where
  "habit_data_of_json j =
     Option.bind (entries_of_json j) (\<lambda>kvs. those (map (entry_of habit_of_json) kvs))"

definition store_of :: "session_state \<Rightarrow> (string list \<times> (string \<times> habit) list) option" where
  "store_of st =
     Option.bind (habits_of_json (ss_habits st)) (\<lambda>hs.
     Option.bind (habit_data_of_json (ss_habit_data st)) (\<lambda>d. Some (hs, d)))"

definition well_shaped :: "json \<Rightarrow> bool" where
  \<comment> \<open>the expected shape of the file: an object whose \<^verbatim>\<open>habits\<close> is a list of names
      and whose \<^verbatim>\<open>habit_data\<close> is a dict of habits\<close>
  "well_shaped data \<longleftrightarrow>
     (case (getitem data ''habits'', getitem data ''habit_data'') of
        (Inr hs, Inr d) \<Rightarrow> store_of \<lparr>ss_habits = hs, ss_habit_data = d\<rparr> \<noteq> None
      | _ \<Rightarrow> False)"

section \<open>Examples\<close>

definition fresh_habit :: habit where
  "fresh_habit = \<lparr>category = ''Health'', goal = ''Daily'', streak = 0, history = Some []\<rparr>"

definition fresh_world :: world where
  "fresh_world = \<lparr>habits = [''run''], habit_data = [(''run'', fresh_habit)], json_file = None\<rparr>"

definition empty_world :: world where
  "empty_world = \<lparr>habits = [], habit_data = [], json_file = None\<rparr>"

definition busy_habit :: habit where
  "busy_habit =
     \<lparr>category = ''Health'', goal = ''Daily'', streak = 3,
      history = Some [(''2025-01-01'', True), (''2025-01-02'', False), (''2025-01-03'', True)]\<rparr>"

definition busy_world :: world where
  "busy_world =
     \<lparr>habits = [''run'', ''read''],
      habit_data = [(''run'', busy_habit), (''read'', fresh_habit)],
      json_file = None\<rparr>"

text \<open>The stores that the three handlers can produce, starting from the empty store.\<close>

inductive reachable :: "world \<Rightarrow> bool" where
  start: "reachable empty_world"
| add: "reachable w \<Longrightarrow> reachable (snd (add_habit n c g w))"
| remove: "reachable w \<Longrightarrow> reachable (snd (remove_habit n w))"
| checkin: "reachable w \<Longrightarrow> reachable (snd (record_checkin n d b w))"

section \<open>Check-in\<close>

lemma habit_data_save_data: "habit_data (save_data w) = habit_data w"
  by (simp add: save_data_def)

lemma habits_save_data: "habits (save_data w) = habits w"
  by (simp add: save_data_def)

lemma record_checkin_same:
  assumes "map_of (habit_data w) n = Some h" and "history_get h d = b"
  shows "record_checkin n d b w = (None, w)"
  using assms by (simp add: record_checkin_def)

lemma record_checkin_change:
  assumes "map_of (habit_data w) n = Some h" and "history_get h d \<noteq> b"
  shows "record_checkin n d b w =
           (None, save_data (w\<lparr>habit_data := AList.update n (after_checkin d b h) (habit_data w)\<rparr>))"
  using assms by (auto simp add: record_checkin_def after_checkin_def Let_def)

lemma record_checkin_habit:
  assumes "map_of (habit_data w) n = Some h"
  shows "fst (record_checkin n d b w) = None"
    and "map_of (habit_data (snd (record_checkin n d b w))) n = Some (after_checkin d b h)"
proof -
  show "fst (record_checkin n d b w) = None"
    using assms by (simp add: record_checkin_def Let_def)
  show "map_of (habit_data (snd (record_checkin n d b w))) n = Some (after_checkin d b h)"
  proof (cases "history_get h d = b")
    case True
    then show ?thesis
      using assms by (simp add: record_checkin_same after_checkin_def)
  next
    case False
    then show ?thesis
      using assms
      by (simp add: record_checkin_change habit_data_save_data update_conv')
  qed
qed

lemma streak_of_record_checkin:
  assumes "map_of (habit_data w) n = Some h"
  shows "streak_of (snd (record_checkin n d b w)) n = Some (streak (after_checkin d b h))"
  using record_checkin_habit(2) [OF assms] by (simp add: streak_of_def)

lemma streak_after_checkin:
  "streak (after_checkin d b h) =
     (if b = history_get h d then streak h else if b then streak h + 1 else 0)"
  by (simp add: after_checkin_def)

lemma lookup_after_checkin:
  "map_of (history_or_empty (after_checkin d b h)) d' =
     (if d' = d \<and> b \<noteq> history_get h d then Some b else map_of (history_or_empty h) d')"
  by (simp add: after_checkin_def history_or_empty_def update_conv')

lemma history_get_after_checkin:
  "history_get (after_checkin d b h) d' = (if d' = d then b else history_get h d')"
  by (auto simp add: history_get_def lookup_after_checkin)

lemma history_get_unrecorded:
  "map_of (history_or_empty h) d = None \<Longrightarrow> history_get h d = False"
  by (simp add: history_get_def)

text \<open>
  C3. For a habit of the store whose history already records the date with the value
  \<open>b\<close>, \<open>record_checkin\<close> with that date and \<open>b\<close> raises nothing and leaves the streak
  of the habit as it was (indeed the whole store).
\<close>

theorem C3_redundant_checkin_keeps_streak:
  assumes "map_of (habit_data w) n = Some h"
      and "history h = Some hist"
      and "map_of hist d = Some b"
  shows "fst (record_checkin n d b w) = None
         \<and> streak_of (snd (record_checkin n d b w)) n = Some (streak h)
         \<and> snd (record_checkin n d b w) = w"
proof -
  have "history_get h d = b"
    using assms(2,3) by (simp add: history_get_def history_or_empty_def)
  with assms(1) have "record_checkin n d b w = (None, w)"
    by (rule record_checkin_same)
  with assms(1) show ?thesis
    by (simp add: streak_of_def)
qed

theorem C3_witness:
  "map_of (habit_data busy_world) ''run'' = Some busy_habit
   \<and> history busy_habit =
       Some [(''2025-01-01'', True), (''2025-01-02'', False), (''2025-01-03'', True)]
   \<and> map_of [(''2025-01-01'', True), (''2025-01-02'', False), (''2025-01-03'', True)]
        ''2025-01-02'' = Some False
   \<and> fst (record_checkin ''run'' ''2025-01-02'' False busy_world) = None
   \<and> streak_of (snd (record_checkin ''run'' ''2025-01-02'' False busy_world)) ''run'' = Some 3
   \<and> snd (record_checkin ''run'' ''2025-01-02'' False busy_world) = busy_world"
proof -
  have a: "map_of (habit_data busy_world) ''run'' = Some busy_habit"
    by (simp add: busy_world_def)
  have b: "history busy_habit =
             Some [(''2025-01-01'', True), (''2025-01-02'', False), (''2025-01-03'', True)]"
    by (simp add: busy_habit_def)
  have c: "map_of [(''2025-01-01'', True), (''2025-01-02'', False), (''2025-01-03'', True)]
             ''2025-01-02'' = Some False"
    by simp
  have s: "streak busy_habit = 3"
    by (simp add: busy_habit_def)
  from C3_redundant_checkin_keeps_streak [OF a b c, unfolded s] a b c show ?thesis
    by blast
qed

text \<open>
  C1, as stated, fails: a check-in with the box unticked on a date that has no record is
  not a change of the check box, so lines 115--127 are skipped and the streak is not
  reset. On a fresh habit the four check-ins give the streaks 1, 2, 2, 3.
\<close>

theorem C1_counterexample:
  "map_of (habit_data fresh_world) ''run'' = Some fresh_habit
   \<and> streak fresh_habit = 0
   \<and> history fresh_habit = Some []
   \<and> checkin_seq ''run''
        [(''2025-01-01'', True), (''2025-01-02'', True),
         (''2025-01-03'', False), (''2025-01-04'', True)] fresh_world
       = [Some 1, Some 2, Some 2, Some 3]
   \<and> checkin_seq ''run''
        [(''2025-01-01'', True), (''2025-01-02'', True),
         (''2025-01-03'', False), (''2025-01-04'', True)] fresh_world
       \<noteq> [Some 1, Some 2, Some 0, Some 1]"
  by (simp add: fresh_world_def fresh_habit_def record_checkin_def history_get_def
      history_or_empty_def save_data_def streak_of_def Let_def)

text \<open>
  C1, amended. For a habit of the store with streak 0 and four pairwise distinct dates
  that its history does not record, check-ins with the values true, true, false, true on
  those dates in order leave the streaks 1, 2, 2, 3 after the respective calls: the
  check-in with false on an unrecorded date changes nothing.
\<close>

theorem C1_streak_sequence:
  assumes n: "map_of (habit_data w) n = Some h"
      and s: "streak h = 0"
      and dist: "distinct [d1, d2, d3, d4]"
      and unrec: "\<forall>d \<in> {d1, d2, d3, d4}. map_of (history_or_empty h) d = None"
  shows "checkin_seq n [(d1, True), (d2, True), (d3, False), (d4, True)] w
           = [Some 1, Some 2, Some 2, Some 3]"
proof -
  define w1 where "w1 = snd (record_checkin n d1 True w)"
  define w2 where "w2 = snd (record_checkin n d2 True w1)"
  define w3 where "w3 = snd (record_checkin n d3 False w2)"
  define w4 where "w4 = snd (record_checkin n d4 True w3)"
  define h1 where "h1 = after_checkin d1 True h"
  define h2 where "h2 = after_checkin d2 True h1"
  define h3 where "h3 = after_checkin d3 False h2"
  define h4 where "h4 = after_checkin d4 True h3"
  have g0: "history_get h d1 = False" "history_get h d2 = False"
           "history_get h d3 = False" "history_get h d4 = False"
    using unrec by (simp_all add: history_get_unrecorded)
  have l1: "map_of (habit_data w1) n = Some h1"
    unfolding w1_def h1_def using n by (rule record_checkin_habit(2))
  have l2: "map_of (habit_data w2) n = Some h2"
    unfolding w2_def h2_def using l1 by (rule record_checkin_habit(2))
  have l3: "map_of (habit_data w3) n = Some h3"
    unfolding w3_def h3_def using l2 by (rule record_checkin_habit(2))
  have l4: "map_of (habit_data w4) n = Some h4"
    unfolding w4_def h4_def using l3 by (rule record_checkin_habit(2))
  have s1: "streak h1 = 1"
    unfolding h1_def using s g0 by (simp add: streak_after_checkin)
  have g1: "history_get h1 d2 = False" "history_get h1 d3 = False" "history_get h1 d4 = False"
    unfolding h1_def using dist g0 by (auto simp add: history_get_after_checkin)
  have s2: "streak h2 = 2"
    unfolding h2_def using s1 g1 by (simp add: streak_after_checkin)
  have g2: "history_get h2 d3 = False" "history_get h2 d4 = False"
    unfolding h2_def using dist g1 by (auto simp add: history_get_after_checkin)
  have s3: "streak h3 = 2"
    unfolding h3_def using s2 g2 by (simp add: streak_after_checkin)
  have g3: "history_get h3 d4 = False"
    unfolding h3_def using dist g2 by (auto simp add: history_get_after_checkin)
  have s4: "streak h4 = 3"
    unfolding h4_def using s3 g3 by (simp add: streak_after_checkin)
  have "checkin_seq n [(d1, True), (d2, True), (d3, False), (d4, True)] w
          = [streak_of w1 n, streak_of w2 n, streak_of w3 n, streak_of w4 n]"
    by (simp add: Let_def w1_def w2_def w3_def w4_def)
  also have "\<dots> = [Some 1, Some 2, Some 2, Some 3]"
    using l1 l2 l3 l4 s1 s2 s3 s4 by (simp add: streak_of_def)
  finally show ?thesis .
qed

theorem C1_witness:
  "map_of (habit_data fresh_world) ''run'' = Some fresh_habit
   \<and> streak fresh_habit = 0
   \<and> distinct [''2025-01-01'', ''2025-01-02'', ''2025-01-03'', ''2025-01-04'']
   \<and> map_of (history_or_empty fresh_habit) ''2025-01-01'' = None
   \<and> map_of (history_or_empty fresh_habit) ''2025-01-02'' = None
   \<and> map_of (history_or_empty fresh_habit) ''2025-01-03'' = None
   \<and> map_of (history_or_empty fresh_habit) ''2025-01-04'' = None
   \<and> checkin_seq ''run''
        [(''2025-01-01'', True), (''2025-01-02'', True),
         (''2025-01-03'', False), (''2025-01-04'', True)] fresh_world
       = [Some 1, Some 2, Some 2, Some 3]"
proof -
  have a: "map_of (habit_data fresh_world) ''run'' = Some fresh_habit"
    by (simp add: fresh_world_def)
  have b: "streak fresh_habit = 0"
    by (simp add: fresh_habit_def)
  have c: "distinct [''2025-01-01'', ''2025-01-02'', ''2025-01-03'', ''2025-01-04'']"
    by simp
  have e: "map_of (history_or_empty fresh_habit) d = None" for d
    by (simp add: fresh_habit_def history_or_empty_def)
  then have d: "\<forall>d \<in> {''2025-01-01'', ''2025-01-02'', ''2025-01-03'', ''2025-01-04''}.
             map_of (history_or_empty fresh_habit) d = None"
    by simp
  from C1_streak_sequence [OF a b c d] a b c e show ?thesis
    by blast
qed

text \<open>
  C2, as stated, fails: the second identical check-in finds the date recorded as true,
  the check box has not changed, and the streak stays 1.
\<close>

theorem C2_counterexample:
  "map_of (habit_data fresh_world) ''run'' = Some fresh_habit
   \<and> streak fresh_habit = 0
   \<and> map_of (history_or_empty fresh_habit) ''2025-01-01'' = None
   \<and> checkin_seq ''run'' [(''2025-01-01'', True), (''2025-01-01'', True)] fresh_world
       = [Some 1, Some 1]
   \<and> checkin_seq ''run'' [(''2025-01-01'', True), (''2025-01-01'', True)] fresh_world
       \<noteq> [Some 1, Some 2]"
  by (simp add: fresh_world_def fresh_habit_def record_checkin_def history_get_def
      history_or_empty_def save_data_def streak_of_def Let_def)

text \<open>
  C2, amended. For a habit of the store and a date that its history does not record,
  two check-ins with true on that date in succession increment the streak once: the
  streak is one more than before after the first call and after the second, and the
  second call changes nothing in the store (from streak 0 the streak becomes 1, not 2).
\<close>

theorem C2_repeated_checkin_counts_once:
  assumes n: "map_of (habit_data w) n = Some h"
      and unrec: "map_of (history_or_empty h) d = None"
  shows "checkin_seq n [(d, True), (d, True)] w = [Some (streak h + 1), Some (streak h + 1)]
         \<and> record_checkin n d True (snd (record_checkin n d True w))
             = (None, snd (record_checkin n d True w))"
proof -
  define w1 where "w1 = snd (record_checkin n d True w)"
  define h1 where "h1 = after_checkin d True h"
  have g0: "history_get h d = False"
    using unrec by (rule history_get_unrecorded)
  have l1: "map_of (habit_data w1) n = Some h1"
    unfolding w1_def h1_def using n by (rule record_checkin_habit(2))
  have s1: "streak h1 = streak h + 1"
    unfolding h1_def using g0 by (simp add: streak_after_checkin)
  have g1: "history_get h1 d = True"
    unfolding h1_def by (simp add: history_get_after_checkin)
  have same: "record_checkin n d True w1 = (None, w1)"
    using l1 g1 by (rule record_checkin_same)
  have "checkin_seq n [(d, True), (d, True)] w = [streak_of w1 n, streak_of w1 n]"
    by (simp add: Let_def w1_def [symmetric] same)
  also have "\<dots> = [Some (streak h + 1), Some (streak h + 1)]"
    using l1 s1 by (simp add: streak_of_def)
  finally show ?thesis
    using same by (simp add: w1_def)
qed

theorem C2_witness:
  "map_of (habit_data fresh_world) ''run'' = Some fresh_habit
   \<and> map_of (history_or_empty fresh_habit) ''2025-01-01'' = None
   \<and> checkin_seq ''run'' [(''2025-01-01'', True), (''2025-01-01'', True)] fresh_world
       = [Some 1, Some 1]"
proof -
  have a: "map_of (habit_data fresh_world) ''run'' = Some fresh_habit"
    by (simp add: fresh_world_def)
  have b: "map_of (history_or_empty fresh_habit) ''2025-01-01'' = None"
    by (simp add: fresh_habit_def history_or_empty_def)
  have s: "streak fresh_habit + 1 = 1"
    by (simp add: fresh_habit_def)
  from C2_repeated_checkin_counts_once [OF a b, unfolded s] a b show ?thesis
    by blast
qed

text \<open>
  C4, as stated, fails: a check-in with false on a date that has no record is skipped
  by the guard of line 115, and the history still has no entry for the date.
\<close>

theorem C4_counterexample:
  "map_of (habit_data fresh_world) ''run'' = Some fresh_habit
   \<and> fst (record_checkin ''run'' ''2025-01-01'' False fresh_world) = None
   \<and> history_entry (snd (record_checkin ''run'' ''2025-01-01'' False fresh_world))
        ''run'' ''2025-01-01'' = None
   \<and> history_entry (snd (record_checkin ''run'' ''2025-01-01'' False fresh_world))
        ''run'' ''2025-01-01'' \<noteq> Some False"
  by (simp add: fresh_world_def fresh_habit_def record_checkin_def history_get_def
      history_or_empty_def history_entry_def)

text \<open>
  C4, amended. For every habit name of the store, every date \<open>d\<close> and every boolean
  \<open>b\<close>, after \<open>record_checkin\<close> the read \<^verbatim>\<open>history.get(d, False)\<close> gives \<open>b\<close>, and the
  history has the entry \<open>d \<mapsto> b\<close> when \<open>b\<close> is true or the date was recorded before;
  recording false for a date that was not recorded leaves the date absent.
\<close>

theorem C4_history_after_checkin:
  assumes n: "map_of (habit_data w) n = Some h"
  shows "fst (record_checkin n d b w) = None
         \<and> map_option (\<lambda>h'. history_get h' d) (map_of (habit_data (snd (record_checkin n d b w))) n)
             = Some b
         \<and> history_entry (snd (record_checkin n d b w)) n d
             = (if b \<or> map_of (history_or_empty h) d \<noteq> None then Some b else None)"
proof -
  have l: "map_of (habit_data (snd (record_checkin n d b w))) n = Some (after_checkin d b h)"
    using n by (rule record_checkin_habit(2))
  have e: "map_of (history_or_empty (after_checkin d b h)) d
             = (if b \<or> map_of (history_or_empty h) d \<noteq> None then Some b else None)"
    by (auto simp add: lookup_after_checkin history_get_def split: option.splits)
  show ?thesis
    using record_checkin_habit(1) [OF n] l e
    by (simp add: history_entry_def history_get_after_checkin)
qed

theorem C4_witness:
  "map_of (habit_data busy_world) ''run'' = Some busy_habit
   \<and> history_entry (snd (record_checkin ''run'' ''2025-01-03'' False busy_world))
        ''run'' ''2025-01-03'' = Some False
   \<and> history_entry (snd (record_checkin ''run'' ''2025-01-09'' True busy_world))
        ''run'' ''2025-01-09'' = Some True
   \<and> history_entry (snd (record_checkin ''run'' ''2025-01-09'' False busy_world))
        ''run'' ''2025-01-09'' = None"
proof -
  have a: "map_of (habit_data busy_world) ''run'' = Some busy_habit"
    by (simp add: busy_world_def)
  have r: "map_of (history_or_empty busy_habit) ''2025-01-03'' \<noteq> None"
          "map_of (history_or_empty busy_habit) ''2025-01-09'' = None"
    by (simp_all add: busy_habit_def history_or_empty_def)
  from C4_history_after_checkin [OF a, of "''2025-01-03''" False]
       C4_history_after_checkin [OF a, of "''2025-01-09''" True]
       C4_history_after_checkin [OF a, of "''2025-01-09''" False] a r
  show ?thesis
    by simp
qed

section \<open>Adding and removing habits\<close>

text \<open>
  C7, as stated, fails: a name of two spaces is a non-empty string, so
  \<^verbatim>\<open>if new_habit\<close> holds and the habit is added.
\<close>

theorem C7_counterexample:
  "''  '' = replicate 2 (CHR '' '')
   \<and> fst (add_habit ''  '' ''Health'' ''Daily'' empty_world) = Added
   \<and> fst (add_habit ''  '' ''Health'' ''Daily'' empty_world) \<noteq> InvalidName
   \<and> habits (snd (add_habit ''  '' ''Health'' ''Daily'' empty_world)) = [''  '']
   \<and> snd (add_habit ''  '' ''Health'' ''Daily'' empty_world) \<noteq> empty_world"
proof -
  have "habits (snd (add_habit ''  '' ''Health'' ''Daily'' empty_world)) = [''  '']"
    by (simp add: add_habit_def empty_world_def habits_save_data)
  moreover have "habits empty_world = []"
    by (simp add: empty_world_def)
  moreover have "fst (add_habit ''  '' ''Health'' ''Daily'' empty_world) = Added"
    by (simp add: add_habit_def empty_world_def)
  moreover have "''  '' = replicate 2 (CHR '' '')"
    by (simp add: numeral_2_eq_2)
  ultimately show ?thesis
    by auto
qed

text \<open>
  C7, amended. \<open>add_habit\<close> fails with \<open>DuplicateHabit\<close> for every name that is already
  in the habit sequence, and with \<open>InvalidName\<close> for the empty name when it is not in
  the sequence; in both cases the sequence, the mapping and the file are left as they
  were. Every other name, a name of white space only among them, is added at the end of
  the sequence.
\<close>

theorem C7_add_habit_failures:
  "(n \<in> set (habits w) \<longrightarrow> add_habit n c g w = (DuplicateHabit, w))
   \<and> (n = [] \<and> n \<notin> set (habits w) \<longrightarrow> add_habit n c g w = (InvalidName, w))
   \<and> (n \<noteq> [] \<and> n \<notin> set (habits w) \<longrightarrow>
        fst (add_habit n c g w) = Added
        \<and> habits (snd (add_habit n c g w)) = habits w @ [n])"
  by (simp add: add_habit_def habits_save_data)

theorem C7_witness:
  "''run'' \<in> set (habits busy_world)
   \<and> add_habit ''run'' ''Other'' ''Weekly'' busy_world = (DuplicateHabit, busy_world)
   \<and> [] \<notin> set (habits busy_world)
   \<and> add_habit [] ''Other'' ''Weekly'' busy_world = (InvalidName, busy_world)
   \<and> ''  '' \<notin> set (habits busy_world)
   \<and> fst (add_habit ''  '' ''Other'' ''Weekly'' busy_world) = Added
   \<and> habits (snd (add_habit ''  '' ''Other'' ''Weekly'' busy_world)) = [''run'', ''read'', ''  '']"
proof -
  have h: "habits busy_world = [''run'', ''read'']"
    by (simp add: busy_world_def)
  from C7_add_habit_failures [of "''run''" busy_world "''Other''" "''Weekly''"]
       C7_add_habit_failures [of "[]" busy_world "''Other''" "''Weekly''"]
       C7_add_habit_failures [of "''  ''" busy_world "''Other''" "''Weekly''"]
  show ?thesis
    by (simp add: h)
qed

lemma keys_update: "fst ` set (AList.update k v al) = insert k (fst ` set al)"
  by (simp add: dom_update)

lemma keys_delete: "fst ` set (AList.delete k al) = fst ` set al - {k}"
proof -
  have "set (map fst (AList.delete k al)) = set (map fst al) - {k}"
    by (simp add: delete_keys)
  then show ?thesis by simp
qed

lemma map_of_key: "map_of al k = Some v \<Longrightarrow> k \<in> fst ` set al"
  by (metis map_of_eq_None_iff option.distinct(1))

lemma in_sync_add_habit:
  assumes "in_sync w"
  shows "in_sync (snd (add_habit n c g w))"
  using assms
  by (auto simp add: add_habit_def in_sync_def habits_save_data habit_data_save_data keys_update)

lemma in_sync_remove_habit:
  assumes "in_sync w" and "distinct (habits w)"
  shows "in_sync (snd (remove_habit n w))"
  using assms
  by (auto simp add: remove_habit_def in_sync_def Let_def habits_save_data
      habit_data_save_data keys_delete)

lemma in_sync_record_checkin:
  assumes "in_sync w"
  shows "in_sync (snd (record_checkin n d b w))"
proof (cases "map_of (habit_data w) n")
  case None
  then show ?thesis
    using assms by (simp add: record_checkin_def)
next
  case (Some h)
  then have "n \<in> fst ` set (habit_data w)"
    by (rule map_of_key)
  then have "insert n (fst ` set (habit_data w)) = fst ` set (habit_data w)"
    by blast
  then show ?thesis
    using assms Some
    by (simp add: record_checkin_def in_sync_def Let_def habits_save_data
        habit_data_save_data keys_update)
qed

lemma habits_record_checkin: "habits (snd (record_checkin n d b w)) = habits w"
  by (simp add: record_checkin_def Let_def habits_save_data split: option.splits)

lemma distinct_add_habit:
  "distinct (habits w) \<Longrightarrow> distinct (habits (snd (add_habit n c g w)))"
  by (simp add: add_habit_def habits_save_data)

lemma distinct_remove_habit:
  "distinct (habits w) \<Longrightarrow> distinct (habits (snd (remove_habit n w)))"
  by (simp add: remove_habit_def Let_def habits_save_data)

text \<open>
  Every store that the handlers produce from the empty store has unique names and is in
  sync.
\<close>

lemma reachable_in_sync: "reachable w \<Longrightarrow> in_sync w \<and> distinct (habits w)"
proof (induction rule: reachable.induct)
  case start
  show ?case by (simp add: in_sync_def empty_world_def)
next
  case (add w n c g)
  then show ?case by (simp add: in_sync_add_habit distinct_add_habit)
next
  case (remove w n)
  then show ?case by (simp add: in_sync_remove_habit distinct_remove_habit)
next
  case (checkin w n d b)
  then show ?case by (simp add: in_sync_record_checkin habits_record_checkin)
qed

text \<open>
  Uniqueness of the names is needed for the removal: \<^verbatim>\<open>list.remove\<close> deletes one
  occurrence, \<^verbatim>\<open>del\<close> the only key. A sequence that holds a name twice (which no
  handler produces) is in sync before the removal and not after it.
\<close>

lemma remove_habit_needs_unique_names:
  "in_sync \<lparr>habits = [''run'', ''run''], habit_data = [(''run'', fresh_habit)], json_file = None\<rparr>
   \<and> habits (snd (remove_habit ''run''
         \<lparr>habits = [''run'', ''run''], habit_data = [(''run'', fresh_habit)], json_file = None\<rparr>))
       = [''run'']
   \<and> habit_data (snd (remove_habit ''run''
         \<lparr>habits = [''run'', ''run''], habit_data = [(''run'', fresh_habit)], json_file = None\<rparr>))
       = []"
  by (simp add: in_sync_def remove_habit_def Let_def habits_save_data habit_data_save_data)

text \<open>
  C10. On a store whose names are unique (section 3 of the specification: the name of a
  habit is its key, and \<open>add_habit\<close> never appends a name twice), each of the three
  mutations keeps the name sequence and the keys of the mapping the same set of names,
  and keeps the names unique, whatever its arguments and whether it succeeds or fails.
\<close>

theorem C10_mutations_keep_sync:
  assumes "in_sync w" and "distinct (habits w)"
  shows "in_sync (snd (add_habit n c g w)) \<and> distinct (habits (snd (add_habit n c g w)))
         \<and> in_sync (snd (remove_habit n w)) \<and> distinct (habits (snd (remove_habit n w)))
         \<and> in_sync (snd (record_checkin n d b w))
         \<and> distinct (habits (snd (record_checkin n d b w)))"
  using assms
  by (simp add: in_sync_add_habit in_sync_remove_habit in_sync_record_checkin
      distinct_add_habit distinct_remove_habit habits_record_checkin)

theorem C10_witness:
  "in_sync busy_world \<and> distinct (habits busy_world)
   \<and> in_sync (snd (add_habit ''walk'' ''Health'' ''Daily'' busy_world))
   \<and> habits (snd (add_habit ''walk'' ''Health'' ''Daily'' busy_world)) = [''run'', ''read'', ''walk'']
   \<and> in_sync (snd (remove_habit ''run'' busy_world))
   \<and> habits (snd (remove_habit ''run'' busy_world)) = [''read'']
   \<and> map (fst) (habit_data (snd (remove_habit ''run'' busy_world))) = [''read'']
   \<and> in_sync (snd (record_checkin ''run'' ''2025-01-09'' True busy_world))"
proof -
  have a: "in_sync busy_world"
    by (simp add: in_sync_def busy_world_def)
  have b: "distinct (habits busy_world)"
    by (simp add: busy_world_def)
  have c: "habits (snd (add_habit ''walk'' ''Health'' ''Daily'' busy_world)) = [''run'', ''read'', ''walk'']"
    by (simp add: add_habit_def busy_world_def habits_save_data)
  have d: "habits (snd (remove_habit ''run'' busy_world)) = [''read'']"
    by (simp add: remove_habit_def busy_world_def habits_save_data Let_def)
  have e: "map (fst) (habit_data (snd (remove_habit ''run'' busy_world))) = [''read'']"
    by (simp add: remove_habit_def busy_world_def habit_data_save_data Let_def)
  from C10_mutations_keep_sync [OF a b, of "''walk''" "''Health''" "''Daily''"]
       C10_mutations_keep_sync [OF a b, of "''run''" _ _ "''2025-01-09''" True] a b c d e
  show ?thesis
    by blast
qed

section \<open>Completion rate\<close>

text \<open>
  The rounding. \<open>ilog2\<close> is the binary exponent, \<open>round_half_even\<close> is within one half
  of its argument, and so \<open>binary64 x\<close> is within half a unit in the last place of \<open>x\<close>,
  has a significand of at most 53 bits, and does not exceed an integer that \<open>x\<close> does
  not exceed.
\<close>

lemma bitlen_power_int:
  assumes "0 < a"
  shows "power_int 2 (bitlen a - 1) \<le> (of_int a :: rat)"
    and "(of_int a :: rat) < power_int 2 (bitlen a)"
proof -
  from bitlen_bounds [OF assms]
  have lo: "2 ^ nat (bitlen a - 1) \<le> a" and hi: "a < 2 ^ nat (bitlen a)"
    by simp_all
  have pos: "1 \<le> bitlen a"
    using assms bitlen_eq_zero_iff [of a] bitlen_nonneg [of a] by linarith
  have "(of_int (2 ^ nat (bitlen a - 1)) :: rat) \<le> of_int a"
    using lo by (simp only: of_int_le_iff)
  then show "power_int 2 (bitlen a - 1) \<le> (of_int a :: rat)"
    using pos by (simp add: power_int_def)
  have "(of_int a :: rat) < of_int (2 ^ nat (bitlen a))"
    using hi by (simp only: of_int_less_iff)
  then show "(of_int a :: rat) < power_int 2 (bitlen a)"
    using pos by (simp add: power_int_def)
qed

lemma ilog2_bounds:
  assumes "0 < x"
  shows "power_int 2 (ilog2 x) \<le> x \<and> x < power_int 2 (ilog2 x + 1)"
proof -
  obtain a b where q: "quotient_of x = (a, b)"
    by (cases "quotient_of x")
  then have b: "0 < b" and x: "x = of_int a / of_int b"
    by (simp_all add: quotient_of_denom_pos quotient_of_div)
  have a: "0 < a"
    using assms b x by (simp add: zero_less_divide_iff)
  define k where "k = bitlen a - bitlen b"
  have ra: "power_int 2 (bitlen a - 1) \<le> (of_int a :: rat)" "(of_int a :: rat) < power_int 2 (bitlen a)"
    using bitlen_power_int [OF a] by simp_all
  have rb: "power_int 2 (bitlen b - 1) \<le> (of_int b :: rat)" "(of_int b :: rat) < power_int 2 (bitlen b)"
    using bitlen_power_int [OF b] by simp_all
  have bpos: "(0::rat) < of_int b"
    using b by simp
  have apos: "(0::rat) \<le> of_int a"
    using a by simp
  have "x < power_int 2 (bitlen a) / power_int 2 (bitlen b - 1)"
    unfolding x by (rule frac_less [OF apos ra(2) _ rb(1)]) simp
  also have "\<dots> = power_int 2 (bitlen a - (bitlen b - 1))"
    by (rule power_int_diff [symmetric]) simp
  also have "bitlen a - (bitlen b - 1) = k + 1"
    by (simp add: k_def)
  finally have up: "x < power_int 2 (k + 1)" .
  have "power_int 2 (bitlen a - 1) / power_int 2 (bitlen b) < x"
    unfolding x by (rule frac_less2 [OF _ ra(1) bpos rb(2)]) simp
  moreover have "power_int 2 (bitlen a - 1) / power_int 2 (bitlen b)
                   = (power_int 2 (bitlen a - 1 - bitlen b) :: rat)"
    by (rule power_int_diff [symmetric]) simp
  moreover have "bitlen a - 1 - bitlen b = k - 1"
    by (simp add: k_def)
  ultimately have low: "power_int 2 (k - 1) < x"
    by simp
  have i: "ilog2 x = (if power_int 2 k \<le> x then k else k - 1)"
    by (simp add: ilog2_def q k_def Let_def)
  show ?thesis
  proof (cases "power_int 2 k \<le> x")
    case True
    with i up show ?thesis by simp
  next
    case False
    with i low show ?thesis by simp
  qed
qed

lemma ilog2_le:
  assumes "0 < x" and "x < power_int 2 (k + 1)"
  shows "ilog2 x \<le> k"
proof (rule ccontr)
  assume "\<not> ilog2 x \<le> k"
  then have "k + 1 \<le> ilog2 x" by simp
  then have "(power_int 2 (k + 1) :: rat) \<le> power_int 2 (ilog2 x)"
    by (intro power_int_increasing) simp_all
  also have "\<dots> \<le> x"
    using ilog2_bounds [OF assms(1)] by simp
  finally show False
    using assms(2) by simp
qed

lemma round_half_even_cases:
  "round_half_even y = \<lfloor>y\<rfloor> \<or> round_half_even y = \<lfloor>y\<rfloor> + 1"
  by (simp add: round_half_even_def Let_def)

lemma round_half_even_error: "\<bar>of_int (round_half_even y) - y\<bar> \<le> 1 / 2"
proof -
  define r where "r = y - of_int \<lfloor>y\<rfloor>"
  have r: "0 \<le> r" "r < 1"
    unfolding r_def by linarith+
  have y: "y = of_int \<lfloor>y\<rfloor> + r"
    by (simp add: r_def)
  consider "r < 1 / 2" | "1 / 2 < r" | "r = 1 / 2"
    by linarith
  then show ?thesis
  proof cases
    case 1
    then have "round_half_even y = \<lfloor>y\<rfloor>"
      by (simp add: round_half_even_def Let_def r_def)
    then show ?thesis
      using 1 r by (simp add: r_def)
  next
    case 2
    then have "round_half_even y = \<lfloor>y\<rfloor> + 1"
      by (simp add: round_half_even_def Let_def r_def)
    then show ?thesis
      using 2 r by (simp add: r_def)
  next
    case 3
    then have "of_int (round_half_even y) - y = - (1 / 2) \<or> of_int (round_half_even y) - y = 1 / 2"
      using round_half_even_cases [of y] by (auto simp add: r_def)
    then show ?thesis
      by auto
  qed
qed

lemma round_half_even_le:
  assumes "y \<le> of_int n"
  shows "round_half_even y \<le> n"
proof -
  have fl: "\<lfloor>y\<rfloor> \<le> n"
    using assms by (simp add: floor_le_iff) 
  show ?thesis
  proof (cases "\<lfloor>y\<rfloor> = n")
    case True
    then have "of_int n \<le> y"
      by (metis of_int_floor_le)
    with assms have "y = of_int n" by simp
    then show ?thesis
      by (simp add: round_half_even_def)
  next
    case False
    with fl have "\<lfloor>y\<rfloor> + 1 \<le> n" by simp
    then show ?thesis
      using round_half_even_cases [of y] by auto
  qed
qed

lemma round_half_even_nonneg: "0 \<le> y \<Longrightarrow> 0 \<le> round_half_even y"
proof -
  assume "0 \<le> y"
  then have "0 \<le> \<lfloor>y\<rfloor>" by simp
  then show ?thesis
    using round_half_even_cases [of y] by auto
qed

lemma binary64_nonneg:
  assumes "0 \<le> x"
  shows "0 \<le> binary64 x"
proof (cases "x = 0")
  case True
  then show ?thesis by (simp add: binary64_def)
next
  case False
  define e where "e = max (ilog2 \<bar>x\<bar> - 52) (- 1074)"
  have "0 \<le> x / power_int 2 e"
    using assms by simp
  then have "0 \<le> round_half_even (x / power_int 2 e)"
    by (rule round_half_even_nonneg)
  then show ?thesis
    using False by (simp add: binary64_def Let_def e_def [symmetric])
qed

lemma binary64_exponent_le:
  assumes "0 < x" and "x < power_int 2 (k + 1)" and "- 1074 \<le> j" and "k - 52 \<le> j"
  shows "max (ilog2 x - 52) (- 1074) \<le> j"
  using ilog2_le [OF assms(1,2)] assms by simp

lemma binary64_error:
  assumes "0 < x" and "x < power_int 2 (k + 1)" and "- 1074 \<le> k - 52"
  shows "\<bar>binary64 x - x\<bar> \<le> power_int 2 (k - 52) / 2"
proof -
  define e where "e = max (ilog2 x - 52) (- 1074)"
  have e: "e \<le> k - 52"
    unfolding e_def using binary64_exponent_le [OF assms(1,2), of "k - 52"] assms(3) by simp
  have p: "(0::rat) < power_int 2 e"
    by simp
  have b: "binary64 x = of_int (round_half_even (x / power_int 2 e)) * power_int 2 e"
    using assms(1) by (simp add: binary64_def Let_def e_def [symmetric])
  have "binary64 x - x = (of_int (round_half_even (x / power_int 2 e)) - x / power_int 2 e) * power_int 2 e"
    using p by (simp add: b field_simps)
  then have "\<bar>binary64 x - x\<bar> = \<bar>of_int (round_half_even (x / power_int 2 e)) - x / power_int 2 e\<bar> * power_int 2 e"
    using p by (simp add: abs_mult)
  also have "\<dots> \<le> 1 / 2 * power_int 2 e"
    using round_half_even_error [of "x / power_int 2 e"] p
    by (intro mult_right_mono) simp_all
  also have "\<dots> \<le> 1 / 2 * power_int 2 (k - 52)"
    using e by (intro mult_left_mono power_int_increasing) simp_all
  finally show ?thesis
    by simp
qed

lemma binary64_le_int:
  assumes "0 < x" and "x \<le> of_int n" and "x < 2 ^ 53"
  shows "binary64 x \<le> of_int n"
proof -
  define e where "e = max (ilog2 x - 52) (- 1074)"
  have "x < power_int 2 (52 + 1)"
    using assms(3) by simp
  then have e: "e \<le> 0"
    unfolding e_def using binary64_exponent_le [OF assms(1), of 52 0] by simp
  have p: "(0::rat) < power_int 2 e"
    by simp
  have b: "binary64 x = of_int (round_half_even (x / power_int 2 e)) * power_int 2 e"
    using assms(1) by (simp add: binary64_def Let_def e_def [symmetric])
  have inv: "(1 / power_int 2 e :: rat) = of_int (2 ^ nat (- e))"
    using e by (simp add: power_int_def field_simps)
  have "x / power_int 2 e \<le> of_int n / power_int 2 e"
    using assms(2) p by (simp add: divide_right_mono)
  also have "\<dots> = of_int (n * 2 ^ nat (- e))"
    using inv by (simp add: field_simps)
  finally have "round_half_even (x / power_int 2 e) \<le> n * 2 ^ nat (- e)"
    by (rule round_half_even_le)
  then have "(of_int (round_half_even (x / power_int 2 e)) :: rat) \<le> of_int (n * 2 ^ nat (- e))"
    by (simp only: of_int_le_iff)
  then have "binary64 x \<le> of_int (n * 2 ^ nat (- e)) * power_int 2 e"
    unfolding b using p by (intro mult_right_mono) simp_all
  also have "\<dots> = of_int n"
    using inv p by (simp add: field_simps)
  finally show ?thesis .
qed


lemma binary64_significand:
  assumes "0 < x"
  shows "round_half_even (x / power_int 2 (max (ilog2 x - 52) (- 1074))) \<le> 2 ^ 53"
proof -
  define e where "e = max (ilog2 x - 52) (- 1074)"
  have p: "(0::rat) < power_int 2 e"
    by simp
  have "ilog2 x + 1 - e \<le> 53"
    by (simp add: e_def)
  have "x / power_int 2 e < power_int 2 (ilog2 x + 1) / power_int 2 e"
    using ilog2_bounds [OF assms] p by (simp add: divide_strict_right_mono)
  also have "\<dots> = power_int 2 (ilog2 x + 1 - e)"
    by (rule power_int_diff [symmetric]) simp
  also have "\<dots> \<le> power_int 2 53"
    using \<open>ilog2 x + 1 - e \<le> 53\<close> by (intro power_int_increasing) simp_all
  finally have "x / power_int 2 e \<le> of_int (2 ^ 53)"
    by simp
  then have "round_half_even (x / power_int 2 e) \<le> 2 ^ 53"
    by (rule round_half_even_le)
  then show ?thesis
    by (simp add: e_def)
qed

text \<open>
  Seven true values of 25: Python prints \<^verbatim>\<open>28.000000000000004\<close>.
\<close>

lemma binary64_7_of_25:
  "binary64 (binary64 (7 / 25) * 100) = 7881299347898369 / 2 ^ 48
   \<and> binary64 (binary64 (7 / 25) * 100) \<noteq> 28"
  by code_simp

lemma count_true: "length (filter (\<lambda>status. status) xs) = count_list xs True"
  by (induction xs) auto

lemma rate_bounds:
  assumes "c \<le> t" and "0 < t"
  shows "0 \<le> binary64 (binary64 (of_nat c / of_nat t) * 100)"
    and "binary64 (binary64 (of_nat c / of_nat t) * 100) \<le> 100"
    and "\<bar>binary64 (binary64 (of_nat c / of_nat t) * 100) - 100 * of_nat c / of_nat t\<bar> \<le> 1 / 2 ^ 45"
proof -
  define q :: rat where "q = of_nat c / of_nat t"
  define bq where "bq = binary64 q"
  define p where "p = bq * 100"
  have q0: "0 \<le> q"
    by (simp add: q_def)
  have q1: "q \<le> 1"
    using assms by (simp add: q_def)
  have bq0: "0 \<le> bq"
    unfolding bq_def using q0 by (rule binary64_nonneg)
  have bq1: "bq \<le> 1" and eq: "\<bar>bq - q\<bar> \<le> 1 / 2 ^ 53"
  proof -
    show "bq \<le> 1"
    proof (cases "q = 0")
      case True
      then show ?thesis by (simp add: bq_def binary64_def)
    next
      case False
      with q0 have "0 < q" by simp
      moreover have "q \<le> of_int 1" using q1 by simp
      moreover have "q < 2 ^ 53" using q1 by simp
      ultimately have "binary64 q \<le> of_int 1"
        by (rule binary64_le_int)
      then show ?thesis by (simp add: bq_def)
    qed
    show "\<bar>bq - q\<bar> \<le> 1 / 2 ^ 53"
    proof (cases "q = 0")
      case True
      then show ?thesis by (simp add: bq_def binary64_def)
    next
      case False
      with q0 have "0 < q" by simp
      moreover have "q < power_int 2 (0 + 1)" using q1 by simp
      ultimately have "\<bar>binary64 q - q\<bar> \<le> power_int 2 (0 - 52) / 2"
        by (rule binary64_error) simp
      then show ?thesis by (simp add: bq_def)
    qed
  qed
  have p0: "0 \<le> p"
    using bq0 by (simp add: p_def)
  have p100: "p \<le> 100"
    using bq1 by (simp add: p_def)
  have r0: "0 \<le> binary64 p"
    using p0 by (rule binary64_nonneg)
  have r100: "binary64 p \<le> 100" and ep: "\<bar>binary64 p - p\<bar> \<le> 1 / 2 ^ 47"
  proof -
    show "binary64 p \<le> 100"
    proof (cases "p = 0")
      case True
      then show ?thesis by (simp add: binary64_def)
    next
      case False
      with p0 have "0 < p" by simp
      moreover have "p \<le> of_int 100" using p100 by simp
      moreover have "p < 2 ^ 53" using p100 by simp
      ultimately have "binary64 p \<le> of_int 100"
        by (rule binary64_le_int)
      then show ?thesis by simp
    qed
    show "\<bar>binary64 p - p\<bar> \<le> 1 / 2 ^ 47"
    proof (cases "p = 0")
      case True
      then show ?thesis by (simp add: binary64_def)
    next
      case False
      with p0 have "0 < p" by simp
      moreover have "p < power_int 2 (6 + 1)" using p100 by simp
      ultimately have "\<bar>binary64 p - p\<bar> \<le> power_int 2 (6 - 52) / 2"
        by (rule binary64_error) simp
      then show ?thesis by simp
    qed
  qed
  have "binary64 p - 100 * q = (binary64 p - p) + 100 * (bq - q)"
    by (simp add: p_def algebra_simps)
  then have "\<bar>binary64 p - 100 * q\<bar> \<le> \<bar>binary64 p - p\<bar> + \<bar>100 * (bq - q)\<bar>"
    by (simp only: abs_triangle_ineq)
  also have "\<bar>100 * (bq - q)\<bar> = 100 * \<bar>bq - q\<bar>"
    by (subst abs_mult) simp
  finally have "\<bar>binary64 p - 100 * q\<bar> \<le> \<bar>binary64 p - p\<bar> + 100 * \<bar>bq - q\<bar>" .
  also have "\<dots> \<le> 1 / 2 ^ 47 + 100 * (1 / 2 ^ 53)"
    using ep eq by (intro add_mono mult_left_mono) simp_all
  also have "\<dots> \<le> 1 / 2 ^ 45"
    by simp
  finally have err: "\<bar>binary64 p - 100 * q\<bar> \<le> 1 / 2 ^ 45" .
  show "0 \<le> binary64 (binary64 (of_nat c / of_nat t) * 100)"
    using r0 by (simp add: p_def bq_def q_def)
  show "binary64 (binary64 (of_nat c / of_nat t) * 100) \<le> 100"
    using r100 by (simp add: p_def bq_def q_def)
  show "\<bar>binary64 (binary64 (of_nat c / of_nat t) * 100) - 100 * of_nat c / of_nat t\<bar> \<le> 1 / 2 ^ 45"
    using err by (simp add: p_def bq_def q_def)
qed

lemma completion_rate_Some:
  assumes "history h = Some hist" and "hist \<noteq> []"
  shows "completion_rate h =
           binary64 (binary64 (of_nat (count_list (map snd hist) True) / of_nat (length hist)) * 100)"
  using assms by (simp add: completion_rate_def Let_def count_true)

lemma count_list_le_length: "count_list xs x \<le> length xs"
  by (induction xs) auto

text \<open>
  C5, as stated, fails: line 162 computes in doubles. For the history true, false, true
  the quotient 2/3 is rounded, and its product with 100 is rounded again, to
  \<open>4691249611844266 / 2\<^sup>4\<^sup>6\<close>, which Python prints as \<^verbatim>\<open>66.66666666666666\<close>. That is
  neither 200/3 nor the double nearest to 200/3 (\<^verbatim>\<open>66.66666666666667\<close>).
\<close>

theorem C5_counterexample:
  "history busy_habit =
     Some [(''2025-01-01'', True), (''2025-01-02'', False), (''2025-01-03'', True)]
   \<and> completion_rate busy_habit = 4691249611844266 / 2 ^ 46
   \<and> completion_rate busy_habit \<noteq> 200 / 3
   \<and> completion_rate busy_habit \<noteq> binary64 (200 / 3)"
  by code_simp

text \<open>
  C5, amended. The completion rate of a habit is 0 when its history is empty (or absent).
  Otherwise it is the double product with 100 of the double quotient of the number of true
  values by the number of entries; it differs from 100 times the number of true values
  divided by the number of entries by at most \<open>2\<^sup>-\<^sup>4\<^sup>5\<close>, without being equal to it in
  general. It always lies between 0 and 100.
\<close>

theorem C5_completion_rate:
  "(case history h of
      None \<Rightarrow> completion_rate h = 0
    | Some hist \<Rightarrow>
        if hist = [] then completion_rate h = 0
        else completion_rate h =
               binary64 (binary64 (of_nat (count_list (map snd hist) True) / of_nat (length hist))
                         * 100)
             \<and> \<bar>completion_rate h
                 - 100 * of_nat (count_list (map snd hist) True) / of_nat (length hist)\<bar>
                 \<le> 1 / 2 ^ 45)
   \<and> 0 \<le> completion_rate h \<and> completion_rate h \<le> 100"
proof (cases "history h")
  case None
  then show ?thesis
    by (simp add: completion_rate_def)
next
  case (Some hist)
  show ?thesis
  proof (cases "hist = []")
    case True
    with Some show ?thesis
      by (simp add: completion_rate_def)
  next
    case False
    then have t: "0 < length hist"
      by simp
    have c: "count_list (map snd hist) True \<le> length hist"
      using count_list_le_length [of "map snd hist" True] by simp
    note r = completion_rate_Some [OF Some False]
    show ?thesis
      using Some False rate_bounds [OF c t]
      by (simp add: r)
  qed
qed

theorem C5_witness:
  "history busy_habit =
     Some [(''2025-01-01'', True), (''2025-01-02'', False), (''2025-01-03'', True)]
   \<and> completion_rate busy_habit = binary64 (binary64 (2 / 3) * 100)
   \<and> \<bar>completion_rate busy_habit - 200 / 3\<bar> \<le> 1 / 2 ^ 45
   \<and> 0 \<le> completion_rate busy_habit
   \<and> completion_rate busy_habit \<le> 100
   \<and> history fresh_habit = Some []
   \<and> completion_rate fresh_habit = 0"
proof -
  have a: "history busy_habit =
     Some [(''2025-01-01'', True), (''2025-01-02'', False), (''2025-01-03'', True)]"
    by (simp add: busy_habit_def)
  have b: "history fresh_habit = Some []"
    by (simp add: fresh_habit_def)
  have i: "completion_rate busy_habit = binary64 (binary64 (2 / 3) * 100)
           \<and> \<bar>completion_rate busy_habit - 200 / 3\<bar> \<le> 1 / 2 ^ 45
           \<and> 0 \<le> completion_rate busy_habit
           \<and> completion_rate busy_habit \<le> 100"
    using C5_completion_rate [of busy_habit] by (auto simp add: a)
  have j: "completion_rate fresh_habit = 0"
    using C5_completion_rate [of fresh_habit] by (simp add: b)
  from i j a b show ?thesis
    by blast
qed

section \<open>Calendar grid\<close>

lemma append_day_inv:
  assumes "length wk < 7" and "\<forall>x \<in> set cd. length x = 7"
      and "append_day c (cd, wk) = (cd', wk')"
  shows "length wk' < 7 \<and> (\<forall>x \<in> set cd'. length x = 7)
         \<and> concat cd' @ wk' = concat cd @ wk @ [Some c]"
  using assms by (auto simp add: append_day_def Let_def split: if_splits)

lemma fill_days_inv:
  assumes "length wk < 7" and "\<forall>x \<in> set cd. length x = 7"
      and "fill_days mk ds (cd, wk) = (cd', wk')"
  shows "length wk' < 7 \<and> (\<forall>x \<in> set cd'. length x = 7)
         \<and> concat cd' @ wk' = concat cd @ wk @ map (\<lambda>d. Some (mk d)) ds"
  using assms
proof (induction ds arbitrary: cd wk)
  case Nil
  then show ?case by simp
next
  case (Cons d ds)
  obtain cd1 wk1 where step: "append_day (mk d) (cd, wk) = (cd1, wk1)"
    by (cases "append_day (mk d) (cd, wk)")
  from append_day_inv [OF Cons.prems(1,2) step]
  have 1: "length wk1 < 7" and 2: "\<forall>x \<in> set cd1. length x = 7"
    and 3: "concat cd1 @ wk1 = concat cd @ wk @ [Some (mk d)]"
    by simp_all
  from Cons.prems(3) step have "fill_days mk ds (cd1, wk1) = (cd', wk')"
    by simp
  from Cons.IH [OF 1 2 this] 3 show ?case
    by simp
qed

lemma pad_week_eq:
  "length week \<le> 7 \<Longrightarrow> pad_week week = week @ replicate (7 - length week) None"
proof (induction week rule: pad_week.induct)
  case (1 week)
  show ?case
  proof (cases "length week < 7")
    case True
    then have k: "7 - length week = Suc (7 - Suc (length week))"
      by arith
    from True have "pad_week week = pad_week (week @ [None])"
      by (subst pad_week.simps) simp
    also have "\<dots> = (week @ [None]) @ replicate (7 - length (week @ [None])) None"
      using True by (intro "1.IH") simp_all
    also have "\<dots> = week @ replicate (7 - length week) None"
      by (simp add: k)
    finally show ?thesis .
  next
    case False
    with "1.prems" have "length week = 7" by simp
    then show ?thesis
      by (subst pad_week.simps) simp
  qed
qed

lemma concat_length_7:
  "\<forall>x \<in> set cd. length x = 7 \<Longrightarrow> length (concat cd) = 7 * length cd"
  by (induction cd) auto

lemma calendar_data_flat:
  fixes mk :: "nat \<Rightarrow> cell"
  assumes w: "first_weekday < 7"
  shows "(\<forall>week \<in> set (calendar_data mk first_weekday num_days). length week = 7)
         \<and> concat (calendar_data mk first_weekday num_days)
             = replicate first_weekday None @ map (\<lambda>d. Some (mk d)) [1..<num_days + 1]
               @ replicate ((7 - (first_weekday + num_days) mod 7) mod 7) None"
proof -
  obtain cd wk where f:
    "fill_days mk [1..<num_days + 1] ([], replicate first_weekday None) = (cd, wk)"
    by (cases "fill_days mk [1..<num_days + 1] ([], replicate first_weekday None)")
  have "length (replicate first_weekday (None :: cell option)) < 7"
    using w by simp
  moreover have "\<forall>x \<in> set ([] :: week list). length x = 7"
    by simp
  ultimately have inv: "length wk < 7 \<and> (\<forall>x \<in> set cd. length x = 7)
      \<and> concat cd @ wk = concat [] @ replicate first_weekday None
            @ map (\<lambda>d. Some (mk d)) [1..<num_days + 1]"
    using f by (rule fill_days_inv)
  then have lwk: "length wk < 7" and all7: "\<forall>x \<in> set cd. length x = 7"
    and flat: "concat cd @ wk = replicate first_weekday None
            @ map (\<lambda>d. Some (mk d)) [1..<num_days + 1]"
    by simp_all
  have "length (concat cd @ wk) = first_weekday + num_days"
    by (simp add: flat)
  then have "7 * length cd + length wk = first_weekday + num_days"
    using concat_length_7 [OF all7] by simp
  then have m: "(first_weekday + num_days) mod 7 = length wk"
    using lwk by (metis mod_less mod_mult_self4)
  define pad where "pad = (7 - (first_weekday + num_days) mod 7) mod 7"
  define g where "g = calendar_data mk first_weekday num_days"
  have g: "g = (if wk \<noteq> [] then cd @ [pad_week wk] else cd)"
    unfolding g_def calendar_data_def f by simp
  have pw: "pad_week wk = wk @ replicate (7 - length wk) None"
    using lwk by (simp add: pad_week_eq)
  have "(\<forall>week \<in> set g. length week = 7)
         \<and> concat g = replicate first_weekday None @ map (\<lambda>d. Some (mk d)) [1..<num_days + 1]
               @ replicate pad None"
  proof (cases "wk = []")
    case True
    then have "pad = 0"
      using m by (simp add: pad_def)
    with True g all7 flat show ?thesis
      by simp
  next
    case False
    then have "0 < length wk" by simp
    then have "pad = 7 - length wk"
      using m lwk by (simp add: pad_def)
    moreover have "length (pad_week wk) = 7"
      using lwk by (simp add: pw)
    moreover have "concat (cd @ [pad_week wk]) = (concat cd @ wk) @ replicate (7 - length wk) None"
      by (simp add: pw)
    ultimately show ?thesis
      using False g all7 flat by simp
  qed
  then show ?thesis
    by (simp add: g_def pad_def)
qed


lemma nth_weeks:
  "\<forall>x \<in> set g. length x = 7 \<Longrightarrow> i < length g \<Longrightarrow> g ! i = take 7 (drop (7 * i) (concat g))"
proof (induction g arbitrary: i)
  case Nil
  then show ?case by simp
next
  case (Cons x xs)
  show ?case
  proof (cases i)
    case 0
    with Cons.prems show ?thesis by simp
  next
    case (Suc j)
    with Cons.prems have "xs ! j = take 7 (drop (7 * j) (concat xs))"
      by (intro Cons.IH) simp_all
    with Suc Cons.prems show ?thesis by simp
  qed
qed

lemma day_cell_fields:
  "day (day_cell strftime y m n w d) = d"
  "date (day_cell strftime y m n w d) = (y, m, d)"
  "completed (day_cell strftime y m n w d) =
     (case map_of (habit_data w) n of
        None \<Rightarrow> False
      | Some h \<Rightarrow> history_get h (strftime (y, m, d)))"
  by (simp_all add: day_cell_def Let_def split: option.split)

lemma first_week:
  assumes all7: "\<forall>x \<in> set g. length x = 7"
      and flat: "concat g = replicate w e @ xs @ replicate p e"
      and w: "w < 7" and xs: "xs \<noteq> []"
  shows "take w (hd g) = replicate w e \<and> hd g ! w = hd xs"
proof -
  have "concat g \<noteq> []"
    using flat xs by simp
  then have ne: "g \<noteq> []"
    by auto
  then have "hd g = g ! 0"
    by (simp add: hd_conv_nth)
  also have "\<dots> = take 7 (concat g)"
    using nth_weeks [OF all7, of 0] ne by simp
  finally have hd: "hd g = take 7 (concat g)" .
  have "take w (hd g) = take w (concat g)"
    using w by (simp add: hd min_def)
  also have "\<dots> = replicate w e"
    by (simp add: flat)
  finally have a: "take w (hd g) = replicate w e" .
  have "hd g ! w = concat g ! w"
    using w by (simp add: hd)
  also have "\<dots> = (xs @ replicate p e) ! 0"
    using nth_append_length_plus [of "replicate w e" "xs @ replicate p e" 0]
    by (simp add: flat)
  also have "\<dots> = hd xs"
    using xs by (simp add: nth_append hd_conv_nth)
  finally show ?thesis
    using a by simp
qed

lemma last_week:
  assumes all7: "\<forall>x \<in> set g. length x = 7"
      and flat: "concat g = replicate w e @ xs @ replicate p e"
      and p: "p < 7" and xs: "xs \<noteq> []"
  shows "drop (7 - p) (last g) = replicate p e \<and> last g ! (6 - p) = last xs"
proof -
  define n where "n = length xs"
  have n: "0 < n"
    using xs by (simp add: n_def)
  have "concat g \<noteq> []"
    using flat xs by simp
  then have ne: "g \<noteq> []"
    by auto
  have len: "length (concat g) = 7 * length g"
    using all7 by (rule concat_length_7)
  have len': "length (concat g) = w + n + p"
    by (simp add: flat n_def)
  from ne have pos: "0 < length g" by simp
  have "last g = g ! (length g - 1)"
    using ne by (simp add: last_conv_nth)
  also have "\<dots> = take 7 (drop (7 * (length g - 1)) (concat g))"
    using nth_weeks [OF all7, of "length g - 1"] pos by simp
  also have "\<dots> = drop (7 * (length g - 1)) (concat g)"
    using len pos by simp
  finally have last: "last g = drop (7 * (length g - 1)) (concat g)" .
  have k: "7 - p + 7 * (length g - 1) = w + n"
    using len len' pos p by arith
  have k': "7 * (length g - 1) + (6 - p) = w + (n - 1)"
    using len len' pos p n by arith
  have "drop (7 - p) (last g) = drop (7 - p + 7 * (length g - 1)) (concat g)"
    unfolding last by (rule drop_drop)
  also have "\<dots> = drop (w + n) (concat g)"
    by (simp only: k)
  also have "\<dots> = replicate p e"
    by (simp add: flat n_def)
  finally have a: "drop (7 - p) (last g) = replicate p e" .
  have "7 * (length g - 1) \<le> length (concat g)"
    using len by simp
  then have "last g ! (6 - p) = concat g ! (7 * (length g - 1) + (6 - p))"
    unfolding last by (rule nth_drop)
  also have "\<dots> = concat g ! (length (replicate w e) + (n - 1))"
    by (simp only: k' length_replicate)
  also have "\<dots> = (xs @ replicate p e) ! (n - 1)"
    unfolding flat by (rule nth_append_length_plus)
  also have "\<dots> = last xs"
    using xs n by (simp add: nth_append last_conv_nth n_def)
  finally show ?thesis
    using a by simp
qed

text \<open>
  C6. Let \<open>first_weekday\<close> be the weekday of day 1 of the month, Monday = 0 to
  Sunday = 6, and \<open>num_days\<close> the length of the month, as \<^verbatim>\<open>datetime\<close> gives them. For
  every store, habit name, year and month:
  \<^item> every week of the grid has exactly 7 cells, so the grid has 7 cells per week in all;
  \<^item> the weeks, one after the other, are \<open>first_weekday\<close> empty cells, the cells of the
    days 1 to \<open>num_days\<close> in order, and fewer than 7 empty cells;
  \<^item> in a month of at least one day, the first week starts with exactly
    \<open>first_weekday\<close> empty cells followed by the cell of day 1, and the last week ends
    with the cell of the last day followed by the padding;
  \<^item> the cell of day \<open>d\<close> carries \<open>d\<close> and \<^verbatim>\<open>history.get(date_str, False)\<close> for the
    date string of that day (false for a habit that is not in the mapping).
  The witness is January 2025, which starts on a Wednesday: two empty cells lead.
\<close>

theorem C6_calendar_grid:
  assumes w: "first_weekday < 7"
  shows "(\<forall>week \<in> set (calendar_grid strftime y m first_weekday num_days n wd). length week = 7)
    \<and> length (concat (calendar_grid strftime y m first_weekday num_days n wd))
        = 7 * length (calendar_grid strftime y m first_weekday num_days n wd)
    \<and> concat (calendar_grid strftime y m first_weekday num_days n wd)
        = replicate first_weekday None
          @ map (\<lambda>d. Some (day_cell strftime y m n wd d)) [1..<num_days + 1]
          @ replicate ((7 - (first_weekday + num_days) mod 7) mod 7) None
    \<and> (7 - (first_weekday + num_days) mod 7) mod 7 < 7
    \<and> (0 < num_days \<longrightarrow>
          take first_weekday (hd (calendar_grid strftime y m first_weekday num_days n wd))
            = replicate first_weekday None
          \<and> hd (calendar_grid strftime y m first_weekday num_days n wd) ! first_weekday
            = Some (day_cell strftime y m n wd 1)
          \<and> drop (7 - (7 - (first_weekday + num_days) mod 7) mod 7)
                (last (calendar_grid strftime y m first_weekday num_days n wd))
            = replicate ((7 - (first_weekday + num_days) mod 7) mod 7) None
          \<and> last (calendar_grid strftime y m first_weekday num_days n wd)
                ! (6 - (7 - (first_weekday + num_days) mod 7) mod 7)
            = Some (day_cell strftime y m n wd num_days))
    \<and> (\<forall>d. day (day_cell strftime y m n wd d) = d
          \<and> completed (day_cell strftime y m n wd d)
              = (case map_of (habit_data wd) n of
                   None \<Rightarrow> False
                 | Some h \<Rightarrow> history_get h (strftime (y, m, d))))"
proof -
  define g where "g = calendar_grid strftime y m first_weekday num_days n wd"
  define p where "p = (7 - (first_weekday + num_days) mod 7) mod 7"
  define f where "f = (\<lambda>d. Some (day_cell strftime y m n wd d))"
  have all7: "\<forall>week \<in> set g. length week = 7"
    and flat: "concat g = replicate first_weekday None @ map f [1..<num_days + 1] @ replicate p None"
    using calendar_data_flat [OF w, of "day_cell strftime y m n wd" num_days]
    by (simp_all add: g_def p_def f_def calendar_grid_def)
  have len: "length (concat g) = 7 * length g"
    using all7 by (rule concat_length_7)
  have p7: "p < 7"
    by (simp add: p_def)
  have days: "map f [1..<num_days + 1] \<noteq> []" "hd (map f [1..<num_days + 1]) = f 1"
      "last (map f [1..<num_days + 1]) = f num_days"
    if "0 < num_days"
    using that by (simp_all add: hd_map last_map del: upt_Suc)
  have first: "take first_weekday (hd g) = replicate first_weekday None \<and> hd g ! first_weekday = f 1"
    if "0 < num_days"
    using first_week [OF all7 flat w days(1)] days(2) that by simp
  have last: "drop (7 - p) (last g) = replicate p None \<and> last g ! (6 - p) = f num_days"
    if "0 < num_days"
    using last_week [OF all7 flat p7 days(1)] days(3) that by simp
  show ?thesis
    using all7 len flat p7 first last
    unfolding g_def p_def f_def
    by (simp add: day_cell_fields)
qed


theorem C6_witness:
  "(2::nat) < 7 \<and> (0::nat) < 31
   \<and> length (concat (calendar_grid iso_strftime 2025 1 2 31 ''run'' busy_world))
       = 7 * length (calendar_grid iso_strftime 2025 1 2 31 ''run'' busy_world)
   \<and> take 2 (hd (calendar_grid iso_strftime 2025 1 2 31 ''run'' busy_world)) = [None, None]
   \<and> hd (calendar_grid iso_strftime 2025 1 2 31 ''run'' busy_world) ! 2
       = Some \<lparr>day = 1, completed = True, date = (2025, 1, 1)\<rparr>
   \<and> drop 5 (last (calendar_grid iso_strftime 2025 1 2 31 ''run'' busy_world)) = [None, None]
   \<and> last (calendar_grid iso_strftime 2025 1 2 31 ''run'' busy_world) ! 4
       = Some \<lparr>day = 31, completed = False, date = (2025, 1, 31)\<rparr>"
proof -
  have w: "(2::nat) < 7" by simp
  have n: "(0::nat) < 31" by simp
  have p: "(7 - (2 + 31) mod 7) mod 7 = (2::nat)" by simp
  have r: "replicate 2 None = [None, None :: cell option]"
    by (simp add: numeral_2_eq_2)
  have c1: "day_cell iso_strftime 2025 1 ''run'' busy_world 1
              = \<lparr>day = 1, completed = True, date = (2025, 1, 1)\<rparr>"
    by (simp add: day_cell_def busy_world_def busy_habit_def history_get_def
        history_or_empty_def iso_strftime_def digit_def)
  have c31: "day_cell iso_strftime 2025 1 ''run'' busy_world 31
              = \<lparr>day = 31, completed = False, date = (2025, 1, 31)\<rparr>"
    by (simp add: day_cell_def busy_world_def busy_habit_def history_get_def
        history_or_empty_def iso_strftime_def digit_def)
  note inst = C6_calendar_grid [OF w, of iso_strftime 2025 1 31 "''run''" busy_world]
  have len: "length (concat (calendar_grid iso_strftime 2025 1 2 31 ''run'' busy_world))
       = 7 * length (calendar_grid iso_strftime 2025 1 2 31 ''run'' busy_world)"
    using inst by (rule conjunct2 [THEN conjunct1])
  have weeks: "take 2 (hd (calendar_grid iso_strftime 2025 1 2 31 ''run'' busy_world))
            = replicate 2 None
          \<and> hd (calendar_grid iso_strftime 2025 1 2 31 ''run'' busy_world) ! 2
            = Some (day_cell iso_strftime 2025 1 ''run'' busy_world 1)
          \<and> drop (7 - (7 - (2 + 31) mod 7) mod 7)
                (last (calendar_grid iso_strftime 2025 1 2 31 ''run'' busy_world))
            = replicate ((7 - (2 + 31) mod 7) mod 7) None
          \<and> last (calendar_grid iso_strftime 2025 1 2 31 ''run'' busy_world)
                ! (6 - (7 - (2 + 31) mod 7) mod 7)
            = Some (day_cell iso_strftime 2025 1 ''run'' busy_world 31)"
    using inst [THEN conjunct2, THEN conjunct2, THEN conjunct2, THEN conjunct2, THEN conjunct1] n
    by (rule mp)
  have a5: "7 - 2 = (5::nat)" and a4: "6 - 2 = (4::nat)"
    by simp_all
  from weeks [unfolded p r c1 c31 a5 a4] w n len show ?thesis
    by blast
qed

section \<open>Saving and loading\<close>

lemma those_map_Some:
  "(\<And>x. x \<in> set xs \<Longrightarrow> f (g x) = Some x) \<Longrightarrow> those (map f (map g xs)) = Some xs"
  by (induction xs) simp_all

lemma history_of_json_inverse: "history_of_json (history_json h) = Some h"
proof -
  have "those (map (entry_of bool_of_json) (map (\<lambda>(d, b). (d, JBool b)) h)) = Some h"
    by (rule those_map_Some) (auto simp add: entry_of_def)
  then show ?thesis
    by (simp add: history_of_json_def history_json_def)
qed

lemma habit_of_json_inverse: "habit_of_json (habit_json h) = Some h"
proof (cases "history h")
  case None
  then show ?thesis
    by (simp add: habit_of_json_def habit_json_def)
next
  case (Some hist)
  then show ?thesis
    by (simp add: habit_of_json_def habit_json_def history_of_json_inverse)
qed

lemma habits_of_json_inverse: "habits_of_json (habits_json hs) = Some hs"
proof -
  have "those (map str_of_json (map JStr hs)) = Some hs"
    by (rule those_map_Some) simp
  then show ?thesis
    by (simp add: habits_of_json_def habits_json_def)
qed

lemma habit_data_of_json_inverse: "habit_data_of_json (habit_data_json d) = Some d"
proof -
  have "those (map (entry_of habit_of_json) (map (\<lambda>(n, h). (n, habit_json h)) d)) = Some d"
    by (rule those_map_Some) (auto simp add: entry_of_def habit_of_json_inverse)
  then show ?thesis
    by (simp add: habit_data_of_json_def habit_data_json_def)
qed

lemma load_data_parsed:
  "load_data (Some (Parsed (JObj [(''habits'', hs), (''habit_data'', d)]))) st
     = (None, \<lparr>ss_habits = hs, ss_habit_data = d\<rparr>)"
  by (cases st) (simp add: load_data_def)

text \<open>
  C9. For every store, \<^verbatim>\<open>save_data\<close> followed by \<^verbatim>\<open>load_data\<close> raises nothing and leaves
  in the session state exactly the store that was saved: the same names in the same
  order and the same mapping, with the category, goal, streak and history of every
  habit. Saving itself does not change the store. (That \<^verbatim>\<open>json.load\<close> returns what
  \<^verbatim>\<open>json.dump\<close> was given is the library's part, and is how the file is modelled.)
\<close>

theorem C9_save_then_load:
  "load_data (json_file (save_data w)) st = (None, session_of w)
   \<and> store_of (session_of w) = Some (habits w, habit_data w)
   \<and> habits (save_data w) = habits w
   \<and> habit_data (save_data w) = habit_data w"
proof -
  have "load_data (json_file (save_data w)) st = (None, session_of w)"
    by (simp add: save_data_def load_data_parsed session_of_def)
  moreover have "store_of (session_of w) = Some (habits w, habit_data w)"
    by (simp add: store_of_def session_of_def habits_of_json_inverse habit_data_of_json_inverse)
  ultimately show ?thesis
    by (simp add: habits_save_data habit_data_save_data)
qed

theorem C9_witness:
  "load_data (json_file (save_data busy_world)) empty_session
     = (None,
        \<lparr>ss_habits = JArr [JStr ''run'', JStr ''read''],
         ss_habit_data =
           JObj [(''run'',
                  JObj [(''category'', JStr ''Health''), (''goal'', JStr ''Daily''),
                        (''streak'', JInt 3),
                        (''history'',
                         JObj [(''2025-01-01'', JBool True), (''2025-01-02'', JBool False),
                               (''2025-01-03'', JBool True)])]),
                 (''read'',
                  JObj [(''category'', JStr ''Health''), (''goal'', JStr ''Daily''),
                        (''streak'', JInt 0), (''history'', JObj [])])]\<rparr>)
   \<and> store_of (session_of busy_world)
       = Some ([''run'', ''read''], [(''run'', busy_habit), (''read'', fresh_habit)])"
proof -
  have s: "session_of busy_world =
        \<lparr>ss_habits = JArr [JStr ''run'', JStr ''read''],
         ss_habit_data =
           JObj [(''run'',
                  JObj [(''category'', JStr ''Health''), (''goal'', JStr ''Daily''),
                        (''streak'', JInt 3),
                        (''history'',
                         JObj [(''2025-01-01'', JBool True), (''2025-01-02'', JBool False),
                               (''2025-01-03'', JBool True)])]),
                 (''read'',
                  JObj [(''category'', JStr ''Health''), (''goal'', JStr ''Daily''),
                        (''streak'', JInt 0), (''history'', JObj [])])]\<rparr>"
    by (simp add: session_of_def busy_world_def busy_habit_def fresh_habit_def habits_json_def
        habit_data_json_def habit_json_def history_json_def)
  have h: "habits busy_world = [''run'', ''read'']"
          "habit_data busy_world = [(''run'', busy_habit), (''read'', fresh_habit)]"
    by (simp_all add: busy_world_def)
  from C9_save_then_load [of busy_world empty_session] show ?thesis
    by (simp only: s h) 
qed

text \<open>
  C8, as stated, fails: \<^verbatim>\<open>load_data\<close> checks nothing about the two values it reads.
  A file with a number where a habit name should be is loaded without an error, and the
  store after the start is not empty.
\<close>

theorem C8_counterexample:
  "\<not> well_shaped (JObj [(''habits'', JArr [JInt 1]), (''habit_data'', JObj [])])
   \<and> load_data (Some (Parsed (JObj [(''habits'', JArr [JInt 1]), (''habit_data'', JObj [])])))
        empty_session
       = (None, \<lparr>ss_habits = JArr [JInt 1], ss_habit_data = JObj []\<rparr>)
   \<and> startup (Some (Parsed (JObj [(''habits'', JArr [JInt 1]), (''habit_data'', JObj [])])))
       = (False, \<lparr>ss_habits = JArr [JInt 1], ss_habit_data = JObj []\<rparr>)
   \<and> snd (startup (Some (Parsed (JObj [(''habits'', JArr [JInt 1]), (''habit_data'', JObj [])]))))
       \<noteq> empty_session"
  by (simp add: well_shaped_def store_of_def habits_of_json_def startup_def load_data_parsed
      empty_session_def)

text \<open>
  A file with the key \<^verbatim>\<open>habits\<close> and without the key \<^verbatim>\<open>habit_data\<close>: line 35 has
  assigned the names when line 36 raises \<^verbatim>\<open>KeyError\<close>, the warning ``Starting fresh''
  is shown, and the session keeps the names with an empty mapping.
\<close>

lemma startup_partial_load:
  "\<not> well_shaped (JObj [(''habits'', JArr [JStr ''run''])])
   \<and> load_data (Some (Parsed (JObj [(''habits'', JArr [JStr ''run''])]))) empty_session
       = (Some KeyError, \<lparr>ss_habits = JArr [JStr ''run''], ss_habit_data = JObj []\<rparr>)
   \<and> startup (Some (Parsed (JObj [(''habits'', JArr [JStr ''run''])])))
       = (True, \<lparr>ss_habits = JArr [JStr ''run''], ss_habit_data = JObj []\<rparr>)"
  by (simp add: well_shaped_def startup_def load_data_def empty_session_def)

text \<open>
  C8, amended. With no file, the start of the script leaves the store empty and shows no
  warning. With a file that \<^verbatim>\<open>json.load\<close> cannot parse, or that parses to anything but
  an object, or to an object without the key \<^verbatim>\<open>habits\<close>, \<^verbatim>\<open>load_data\<close> raises, the
  warning is shown and the store is empty. A file that parses to an object with the keys
  \<^verbatim>\<open>habits\<close> and \<^verbatim>\<open>habit_data\<close> is loaded as it is, whatever the two values are, and
  nothing is raised.
\<close>

theorem C8_startup:
  "startup None = (False, empty_session)
   \<and> load_data (Some Malformed) empty_session = (Some JSONDecodeError, empty_session)
   \<and> startup (Some Malformed) = (True, empty_session)
   \<and> (\<forall>e. getitem data ''habits'' = Inl e \<longrightarrow>
          \<not> well_shaped data
          \<and> load_data (Some (Parsed data)) empty_session = (Some e, empty_session)
          \<and> startup (Some (Parsed data)) = (True, empty_session))
   \<and> (\<forall>hs d. getitem data ''habits'' = Inr hs \<and> getitem data ''habit_data'' = Inr d \<longrightarrow>
          load_data (Some (Parsed data)) empty_session
            = (None, \<lparr>ss_habits = hs, ss_habit_data = d\<rparr>)
          \<and> startup (Some (Parsed data)) = (False, \<lparr>ss_habits = hs, ss_habit_data = d\<rparr>))"
  by (simp add: startup_def load_data_def empty_session_def well_shaped_def)

theorem C8_witness:
  "getitem (JArr []) ''habits'' = Inl TypeError
   \<and> startup (Some (Parsed (JArr []))) = (True, empty_session)
   \<and> getitem (JObj [(''habit_data'', JObj [])]) ''habits'' = Inl KeyError
   \<and> startup (Some (Parsed (JObj [(''habit_data'', JObj [])]))) = (True, empty_session)
   \<and> getitem (JObj [(''habits'', JArr [JInt 1]), (''habit_data'', JObj [])]) ''habits''
       = Inr (JArr [JInt 1])
   \<and> getitem (JObj [(''habits'', JArr [JInt 1]), (''habit_data'', JObj [])]) ''habit_data''
       = Inr (JObj [])
   \<and> startup (Some (Parsed (JObj [(''habits'', JArr [JInt 1]), (''habit_data'', JObj [])])))
       = (False, \<lparr>ss_habits = JArr [JInt 1], ss_habit_data = JObj []\<rparr>)"
proof -
  have a: "getitem (JArr []) ''habits'' = Inl TypeError"
    by simp
  have b: "getitem (JObj [(''habit_data'', JObj [])]) ''habits'' = Inl KeyError"
    by simp
  have c: "getitem (JObj [(''habits'', JArr [JInt 1]), (''habit_data'', JObj [])]) ''habits''
             = Inr (JArr [JInt 1])"
          "getitem (JObj [(''habits'', JArr [JInt 1]), (''habit_data'', JObj [])]) ''habit_data''
             = Inr (JObj [])"
    by simp_all
  from C8_startup [of "JArr []"] C8_startup [of "JObj [(''habit_data'', JObj [])]"]
       C8_startup [of "JObj [(''habits'', JArr [JInt 1]), (''habit_data'', JObj [])]"] a b c
  show ?thesis
    by blast
qed

end
